theory Spec2Isabelle
  imports Main
begin

section \<open>JavaScript strings\<close>

text \<open>
  A JavaScript string is a sequence of code units. It is modelled as a \<open>string\<close>
  (a list of \<open>char\<close>), a \<open>char\<close> standing for a code unit below 256. The
  operations are those of \<open>String.prototype\<close> that \<open>index.js\<close> calls.
\<close>

text \<open>White space as \<open>trim\<close> sees it: TAB, LF, VT, FF, CR, SPACE and NBSP.\<close>

definition is_space :: "char \<Rightarrow> bool" where
  "is_space c = (c \<in> set [CHR 0x09, CHR 0x0A, CHR 0x0B, CHR 0x0C, CHR 0x0D, CHR 0x20, CHR 0xA0])"

text \<open>The class \<open>\w\<close> of a regular expression without flags: \<open>[A-Za-z0-9_]\<close>.\<close>

definition is_word :: "char \<Rightarrow> bool" where
  "is_word c =
     (let n = (of_char c :: nat)
      in (65 \<le> n \<and> n \<le> 90) \<or> (97 \<le> n \<and> n \<le> 122) \<or> (48 \<le> n \<and> n \<le> 57) \<or> n = 95)"

definition trim :: "string \<Rightarrow> string" where
  "trim s = rev (dropWhile is_space (rev (dropWhile is_space s)))"

definition startsWith :: "string \<Rightarrow> string \<Rightarrow> bool" where
  "startsWith s p = (take (length p) s = p)"

definition endsWith :: "string \<Rightarrow> string \<Rightarrow> bool" where
  "endsWith s p = (length p \<le> length s \<and> drop (length s - length p) s = p)"

text \<open>\<open>s.slice(n)\<close> for a non-negative \<open>n\<close>.\<close>

definition slice_from :: "nat \<Rightarrow> 'a list \<Rightarrow> 'a list" where
  "slice_from n s = drop n s"

text \<open>
  \<open>s.split(c)\<close> for a one-character separator: the pieces between the separators.
  The result is never empty: \<open>''''.split(c)\<close> is the one-element array holding the
  empty string.
\<close>

fun split :: "char \<Rightarrow> string \<Rightarrow> string list" where
  "split c [] = [[]]"
| "split c (x # xs) =
     (if x = c then [] # split c xs
      else (case split c xs of
              [] \<Rightarrow> [[x]]
            | p # ps \<Rightarrow> (x # p) # ps))"

text \<open>\<open>a.join(sep)\<close>.\<close>

fun join :: "string \<Rightarrow> string list \<Rightarrow> string" where
  "join sep [] = []"
| "join sep [x] = x"
| "join sep (x # y # ys) = x @ sep @ join sep (y # ys)"

text \<open>
  \<open>[...content.matchAll(/#(\w+)/g)].map(match => match[1])\<close>: the scan goes from left
  to right; at a \<open>#\<close> followed by at least one word character the longest run of
  word characters is captured, and the scan goes on behind the match; at any other
  position it moves one character on.
\<close>

function inlineTags :: "string \<Rightarrow> string list" where
  "inlineTags [] = []"
| "inlineTags (c # cs) =
     (if c = CHR ''#'' \<and> takeWhile is_word cs \<noteq> []
      then takeWhile is_word cs # inlineTags (dropWhile is_word cs)
      else inlineTags cs)"
  by pat_completeness auto
termination
  by (relation "measure length") (auto simp: length_dropWhile_le less_Suc_eq_le)

text \<open>
  \<open>Array.from(new Set(xs))\<close>: a \<open>Set\<close> keeps its elements in insertion order, and
  adding an element it already has changes nothing.
\<close>

definition set_add :: "'a list \<Rightarrow> 'a \<Rightarrow> 'a list" where
  "set_add s x = (if x \<in> set s then s else s @ [x])"

definition array_from_set :: "'a list \<Rightarrow> 'a list" where
  "array_from_set xs = foldl set_add [] xs"

section \<open>Node's path module\<close>

text \<open>
  POSIX \<open>path.join\<close>, \<open>path.extname\<close> and \<open>path.basename\<close>, for the paths
  this program builds: a directory and an entry name returned by \<open>readdir\<close>. The
  normalisation \<open>path.join\<close> does on the directory part is left out, a path being
  only the key under which a file is read.
\<close>

definition path_join :: "string \<Rightarrow> string \<Rightarrow> string" where
  "path_join dir file = dir @ ''/'' @ file"

text \<open>The last component of a path (the text behind its last slash).\<close>

definition last_component :: "string \<Rightarrow> string" where
  "last_component p = rev (takeWhile (\<lambda>c. c \<noteq> CHR ''/'') (rev p))"

text \<open>
  \<open>path.extname\<close>: from the last dot of the last component to its end; empty when
  there is no dot, when the last dot is the component's first character, and for
  the component \<open>..\<close>.
\<close>

definition extname :: "string \<Rightarrow> string" where
  "extname p =
     (let b = last_component p;
          ext = rev (takeWhile (\<lambda>c. c \<noteq> CHR ''.'') (rev b))
      in if CHR ''.'' \<notin> set b then []
         else if length ext + 1 = length b then []
         else if b = ''..'' then []
         else CHR ''.'' # ext)"

text \<open>
  \<open>path.basename(p, ext)\<close>: the last component, without \<open>ext\<close> when it ends
  with \<open>ext\<close> and is more than \<open>ext\<close>.
\<close>

definition basename :: "string \<Rightarrow> string \<Rightarrow> string" where
  "basename p ext =
     (let b = last_component p
      in if ext \<noteq> [] \<and> length ext < length b \<and> endsWith b ext
         then take (length b - length ext) b
         else b)"

section \<open>The world the script runs in\<close>

text \<open>
  What \<open>fs-extra\<close>, \<open>marked\<close> and the console are to the script: a directory
  listing and a file content per path (none when the call rejects), the paths
  \<open>writeFile\<close> can write, the renderer, and the lines printed so far.
\<close>

datatype error =
  ReaddirError string | ReadError string | WriteError string | TypeError string | SyntaxError string

datatype console_entry = ConsoleLog string | ConsoleError string error

record world =
  listing :: "string \<Rightarrow> string list option"
  files :: "string \<Rightarrow> string option"
  writable :: "string \<Rightarrow> bool"
  marked_parse :: "string \<Rightarrow> string"
  console :: "console_entry list"

definition readdir :: "world \<Rightarrow> string \<Rightarrow> error + string list" where
  "readdir w dir = (case listing w dir of None \<Rightarrow> Inl (ReaddirError dir) | Some fs \<Rightarrow> Inr fs)"

definition readFile :: "world \<Rightarrow> string \<Rightarrow> error + string" where
  "readFile w p = (case files w p of None \<Rightarrow> Inl (ReadError p) | Some c \<Rightarrow> Inr c)"

definition writeFile :: "world \<Rightarrow> string \<Rightarrow> string \<Rightarrow> world \<times> (error + unit)" where
  "writeFile w p c =
     (if writable w p then (w\<lparr>files := (files w)(p \<mapsto> c)\<rparr>, Inr ())
      else (w, Inl (WriteError p)))"

definition console_log :: "world \<Rightarrow> string \<Rightarrow> world" where
  "console_log w m = w\<lparr>console := console w @ [ConsoleLog m]\<rparr>"

definition console_error :: "world \<Rightarrow> string \<Rightarrow> error \<Rightarrow> world" where
  "console_error w m e = w\<lparr>console := console w @ [ConsoleError m e]\<rparr>"

section \<open>parseMarkdownFile\<close>

record fact =
  title :: string
  body :: string
  tags :: "string list"
  htmlContent :: string

text \<open>
  Lines 32 to 36: the loop over the lines that pushes the trimmed pieces of every
  line starting with \<open>- \<close>.
\<close>

fun bulletTags :: "string list \<Rightarrow> string list \<Rightarrow> string list" where
  "bulletTags ts [] = ts"
| "bulletTags ts (line # rest) =
     (if startsWith line ''- ''
      then bulletTags (ts @ map trim (split CHR ''-'' (slice_from 2 line))) rest
      else bulletTags ts rest)"

text \<open>Lines 18 and 32 to 43: the tags of a content, given its lines.\<close>

definition parseTags :: "string \<Rightarrow> string list \<Rightarrow> string list" where
  "parseTags content lines =
     (let ts = bulletTags [] lines;
          ts = ts @ inlineTags content
      in array_from_set (map trim ts))"

text \<open>
  Lines 13 to 45, behind the read. \<open>lines[0]\<close> of an empty array is
  \<open>undefined\<close>, and \<open>startsWith\<close> on it throws a \<open>TypeError\<close>. The title is
  \<open>null\<close> (\<open>None\<close>) until the header sets it; \<open>!title\<close> holds of \<open>null\<close> and of
  the empty string.
\<close>

definition parseContent :: "(string \<Rightarrow> string) \<Rightarrow> string \<Rightarrow> string \<Rightarrow> error + fact" where
  "parseContent render fileName content =
     (let html = render content;
          lines = split CHR 0x0A content
      in case lines of
           [] \<Rightarrow> Inl (TypeError ''lines[0] is undefined'')
         | line0 # _ \<Rightarrow>
             (let (title0, body0) =
                    (if startsWith line0 ''# ''
                     then (Some (trim (slice_from 2 line0)), join [CHR 0x0A] (slice_from 1 lines))
                     else (None, content));
                  title1 = (case title0 of
                              None \<Rightarrow> fileName
                            | Some t \<Rightarrow> if t = [] then fileName else t)
              in Inr \<lparr>title = title1, body = body0, tags = parseTags content lines,
                      htmlContent = html\<rparr>))"

text \<open>
  The function itself: the read, and the \<open>catch\<close> that prints the error and throws
  it again.
\<close>

definition parseMarkdownFile :: "world \<Rightarrow> string \<Rightarrow> world \<times> (error + fact)" where
  "parseMarkdownFile w filePath =
     (case (case readFile w filePath of
              Inl err \<Rightarrow> Inl err
            | Inr content \<Rightarrow> parseContent (marked_parse w) (basename filePath ''.md'') content) of
        Inl err \<Rightarrow> (console_error w (''Error reading file '' @ filePath @ '':'') err, Inl err)
      | Inr fact' \<Rightarrow> (w, Inr fact'))"

section \<open>JSON\<close>

text \<open>
  The JSON values the script builds: strings, arrays and objects, an object being
  the list of its properties in the order they were written.
\<close>

datatype json = JString string | JArray "json list" | JObject "(string \<times> json) list"

definition hex_digit :: "nat \<Rightarrow> char" where
  "hex_digit n = ''0123456789abcdef'' ! n"

text \<open>\<open>QuoteJSONString\<close>, one code unit at a time.\<close>

definition quote_char :: "char \<Rightarrow> string" where
  "quote_char c =
     (if c = CHR 0x08 then [CHR 0x5C, CHR ''b'']
      else if c = CHR 0x09 then [CHR 0x5C, CHR ''t'']
      else if c = CHR 0x0A then [CHR 0x5C, CHR ''n'']
      else if c = CHR 0x0C then [CHR 0x5C, CHR ''f'']
      else if c = CHR 0x0D then [CHR 0x5C, CHR ''r'']
      else if c = CHR 0x22 then [CHR 0x5C, CHR 0x22]
      else if c = CHR 0x5C then [CHR 0x5C, CHR 0x5C]
      else if (of_char c :: nat) < 0x20
      then [CHR 0x5C, CHR ''u'', CHR ''0'', CHR ''0'',
            hex_digit (of_char c div 16), hex_digit (of_char c mod 16)]
      else [c])"

definition quote :: "string \<Rightarrow> string" where
  "quote s = CHR 0x22 # concat (map quote_char s) @ [CHR 0x22]"

text \<open>
  \<open>JSON.stringify(value, null, gap)\<close> (\<open>SerializeJSONProperty\<close>,
  \<open>SerializeJSONObject\<close> and \<open>SerializeJSONArray\<close> of the language
  specification), \<open>indent\<close> being the current indentation. Without a gap the text
  has no white space.
\<close>

fun serialize :: "string \<Rightarrow> string \<Rightarrow> json \<Rightarrow> string" where
  "serialize gap indent (JString s) = quote s"
| "serialize gap indent (JArray vs) =
     (let stepback = indent;
          indent = indent @ gap;
          partial = map (serialize gap indent) vs
      in if partial = [] then ''[]''
         else if gap = [] then ''['' @ join '','' partial @ '']''
         else ''['' @ [CHR 0x0A] @ indent @ join ('','' @ [CHR 0x0A] @ indent) partial
                @ [CHR 0x0A] @ stepback @ '']'')"
| "serialize gap indent (JObject ps) =
     (let stepback = indent;
          indent = indent @ gap;
          partial = map (\<lambda>kv. quote (fst kv) @ '':'' @ (if gap = [] then [] else '' '')
                                  @ serialize gap indent (snd kv)) ps
      in if partial = [] then ''{}''
         else if gap = [] then ''{'' @ join '','' partial @ ''}''
         else ''{'' @ [CHR 0x0A] @ indent @ join ('','' @ [CHR 0x0A] @ indent) partial
                @ [CHR 0x0A] @ stepback @ ''}'')"

definition JSON_stringify :: "json \<Rightarrow> string" where
  "JSON_stringify v = serialize [] [] v"

definition JSON_stringify_2 :: "json \<Rightarrow> string" where
  "JSON_stringify_2 v = serialize ''  '' [] v"

text \<open>
  \<open>JSON.parse\<close>, for the texts of this value type without white space between
  the tokens (the texts \<open>JSON.stringify\<close> writes without a gap, the only ones the
  script parses); any other text is a \<open>SyntaxError\<close>, here \<open>None\<close>.
\<close>

definition hex_value :: "char \<Rightarrow> nat option" where
  "hex_value c =
     (let n = (of_char c :: nat)
      in if 48 \<le> n \<and> n \<le> 57 then Some (n - 48)
         else if 97 \<le> n \<and> n \<le> 102 then Some (n - 87)
         else if 65 \<le> n \<and> n \<le> 70 then Some (n - 55)
         else None)"

definition hex4 :: "char \<Rightarrow> char \<Rightarrow> char \<Rightarrow> char \<Rightarrow> nat option" where
  "hex4 a b c d =
     (case (hex_value a, hex_value b, hex_value c, hex_value d) of
        (Some x, Some y, Some z, Some u) \<Rightarrow> Some (((x * 16 + y) * 16 + z) * 16 + u)
      | _ \<Rightarrow> None)"

definition unescape :: "char \<Rightarrow> char option" where
  "unescape e =
     (if e = CHR ''b'' then Some (CHR 0x08)
      else if e = CHR ''t'' then Some (CHR 0x09)
      else if e = CHR ''n'' then Some (CHR 0x0A)
      else if e = CHR ''f'' then Some (CHR 0x0C)
      else if e = CHR ''r'' then Some (CHR 0x0D)
      else if e = CHR 0x22 then Some (CHR 0x22)
      else if e = CHR 0x5C then Some (CHR 0x5C)
      else if e = CHR ''/'' then Some (CHR ''/'')
      else None)"

definition cons_fst :: "'a \<Rightarrow> ('a list \<times> 'b) option \<Rightarrow> ('a list \<times> 'b) option" where
  "cons_fst x r = (case r of None \<Rightarrow> None | Some (xs, rest) \<Rightarrow> Some (x # xs, rest))"

text \<open>The characters of a string behind its opening quote, and the text behind it.\<close>

fun parse_string :: "string \<Rightarrow> (string \<times> string) option" where
  "parse_string [] = None"
| "parse_string (c # cs) =
     (if c = CHR 0x22 then Some ([], cs)
      else if c = CHR 0x5C then
        (case cs of
           [] \<Rightarrow> None
         | e # cs1 \<Rightarrow>
             if e = CHR ''u'' then
               (case cs1 of
                  h1 # h2 # h3 # h4 # cs2 \<Rightarrow>
                    (case hex4 h1 h2 h3 h4 of
                       None \<Rightarrow> None
                     | Some n \<Rightarrow> if n < 256 then cons_fst (char_of n) (parse_string cs2) else None)
                | _ \<Rightarrow> None)
             else
               (case unescape e of
                  None \<Rightarrow> None
                | Some x \<Rightarrow> cons_fst x (parse_string cs1)))
      else if (of_char c :: nat) < 0x20 then None
      else cons_fst c (parse_string cs))"

text \<open>
  A value, the elements of an array behind its first bracket, and the properties
  of an object behind its first brace. The first argument bounds the depth of
  the recursion; \<open>JSON_parse\<close> gives it the length of the text.
\<close>

fun parse_value :: "nat \<Rightarrow> string \<Rightarrow> (json \<times> string) option"
  and parse_elements :: "nat \<Rightarrow> string \<Rightarrow> (json list \<times> string) option"
  and parse_members :: "nat \<Rightarrow> string \<Rightarrow> ((string \<times> json) list \<times> string) option" where
  "parse_value 0 s = None"
| "parse_value (Suc n) s =
     (case s of
        [] \<Rightarrow> None
      | c # cs \<Rightarrow>
          if c = CHR 0x22 then
            (case parse_string cs of None \<Rightarrow> None | Some (x, rest) \<Rightarrow> Some (JString x, rest))
          else if c = CHR ''['' then
            (case cs of
               [] \<Rightarrow> None
             | d # ds \<Rightarrow>
                 if d = CHR '']'' then Some (JArray [], ds)
                 else (case parse_elements n cs of
                         None \<Rightarrow> None
                       | Some (vs, rest) \<Rightarrow> Some (JArray vs, rest)))
          else if c = CHR ''{'' then
            (case cs of
               [] \<Rightarrow> None
             | d # ds \<Rightarrow>
                 if d = CHR ''}'' then Some (JObject [], ds)
                 else (case parse_members n cs of
                         None \<Rightarrow> None
                       | Some (ps, rest) \<Rightarrow> Some (JObject ps, rest)))
          else None)"
| "parse_elements 0 s = None"
| "parse_elements (Suc n) s =
     (case parse_value n s of
        None \<Rightarrow> None
      | Some (v, rest) \<Rightarrow>
          (case rest of
             [] \<Rightarrow> None
           | c # cs \<Rightarrow>
               if c = CHR '']'' then Some ([v], cs)
               else if c = CHR '','' then cons_fst v (parse_elements n cs)
               else None))"
| "parse_members 0 s = None"
| "parse_members (Suc n) s =
     (case s of
        [] \<Rightarrow> None
      | q # s1 \<Rightarrow>
          if q = CHR 0x22 then
            (case parse_string s1 of
               None \<Rightarrow> None
             | Some (k, s2) \<Rightarrow>
                 (case s2 of
                    [] \<Rightarrow> None
                  | colon # s3 \<Rightarrow>
                      if colon = CHR '':'' then
                        (case parse_value n s3 of
                           None \<Rightarrow> None
                         | Some (v, rest) \<Rightarrow>
                             (case rest of
                                [] \<Rightarrow> None
                              | c # cs \<Rightarrow>
                                  if c = CHR ''}'' then Some ([(k, v)], cs)
                                  else if c = CHR '','' then cons_fst (k, v) (parse_members n cs)
                                  else None))
                      else None))
          else None)"

definition JSON_parse :: "string \<Rightarrow> json option" where
  "JSON_parse s =
     (case parse_value (length s) s of
        Some (v, []) \<Rightarrow> Some v
      | _ \<Rightarrow> None)"

section \<open>generateFactsJSON\<close>

text \<open>What \<open>JSON.stringify\<close> sees of a fact: its four properties, in this order.\<close>

definition fact_json :: "fact \<Rightarrow> json" where
  "fact_json f =
     JObject [(''title'', JString (title f)),
              (''body'', JString (body f)),
              (''tags'', JArray (map JString (tags f))),
              (''htmlContent'', JString (htmlContent f))]"

text \<open>Lines 62 to 72: the loop over the directory entries.\<close>

fun factsLoop :: "world \<Rightarrow> string \<Rightarrow> string list \<Rightarrow> fact list \<Rightarrow> world \<times> (error + fact list)" where
  "factsLoop w dir [] facts = (w, Inr facts)"
| "factsLoop w dir (file # rest) facts =
     (if extname file = ''.md''
      then (case parseMarkdownFile w (path_join dir file) of
              (w', Inl err) \<Rightarrow> (w', Inl err)
            | (w', Inr fact') \<Rightarrow>
                if ''UNFINISHED'' \<notin> set (tags fact')
                then factsLoop w' dir rest (facts @ [fact'])
                else factsLoop w' dir rest facts)
      else factsLoop w dir rest facts)"

text \<open>Lines 59 to 75: the \<open>try\<close> block.\<close>

definition generateFactsJSON_try :: "world \<Rightarrow> string \<Rightarrow> string \<Rightarrow> world \<times> (error + unit)" where
  "generateFactsJSON_try w markdownDir outputFile =
     (case readdir w markdownDir of
        Inl err \<Rightarrow> (w, Inl err)
      | Inr entries \<Rightarrow>
          (case factsLoop w markdownDir entries [] of
             (w1, Inl err) \<Rightarrow> (w1, Inl err)
           | (w1, Inr facts) \<Rightarrow>
               (case writeFile w1 outputFile (JSON_stringify_2 (JArray (map fact_json facts))) of
                  (w2, Inl err) \<Rightarrow> (w2, Inl err)
                | (w2, Inr _) \<Rightarrow>
                    (console_log w2 (''Facts JSON generated at '' @ outputFile), Inr ()))))"

text \<open>
  The function: the \<open>catch\<close> prints the error and the function returns. The second
  component is what the caller gets: \<open>Inl\<close> would be an error thrown to it.
\<close>

definition generateFactsJSON :: "world \<Rightarrow> string \<Rightarrow> string \<Rightarrow> world \<times> (error + unit)" where
  "generateFactsJSON w markdownDir outputFile =
     (case generateFactsJSON_try w markdownDir outputFile of
        (w', Inl err) \<Rightarrow> (console_error w' ''Error generating facts JSON:'' err, Inr ())
      | (w', Inr _) \<Rightarrow> (w', Inr ()))"

section \<open>generateRulesJSON\<close>

text \<open>The object of lines 100 to 110.\<close>

definition tagMatchRule :: "string \<Rightarrow> fact \<Rightarrow> json" where
  "tagMatchRule tag f =
     JObject
       [(''conditions'', JObject [(''in'', JArray [JString tag, JObject [(''var'', JString ''tags'')]])]),
        (''event'',
         JObject [(''type'', JString ''tagMatch''),
                  (''params'',
                   JObject [(''message'', JString (''Matched tag: '' @ tag)),
                            (''title'', JString (title f)),
                            (''body'', JString (body f))])])]"

text \<open>The object of lines 118 to 128.\<close>

definition bodyMatchRule :: "fact \<Rightarrow> json" where
  "bodyMatchRule f =
     JObject
       [(''conditions'', JObject [(''=='', JArray [JObject [(''var'', JString ''body'')], JString (body f)])]),
        (''event'',
         JObject [(''type'', JString ''bodyMatch''),
                  (''params'',
                   JObject [(''message'', JString ''Matched body content''),
                            (''title'', JString (title f)),
                            (''body'', JString (body f))])])]"

text \<open>
  Lines 99 to 132: the rules of one fact. The \<open>Set\<close> of rule keys is the list of
  its elements in insertion order.
\<close>

definition addTagRule :: "fact \<Rightarrow> string list \<Rightarrow> string \<Rightarrow> string list" where
  "addTagRule f rules tag =
     (let ruleKey = JSON_stringify (tagMatchRule tag f)
      in if ruleKey \<notin> set rules then set_add rules ruleKey else rules)"

definition addFactRules :: "string list \<Rightarrow> fact \<Rightarrow> string list" where
  "addFactRules rules f =
     (let rules = foldl (addTagRule f) rules (tags f);
          bodyRuleKey = JSON_stringify (bodyMatchRule f)
      in if bodyRuleKey \<notin> set rules then set_add rules bodyRuleKey else rules)"

text \<open>Lines 91 to 135: the loop over the directory entries.\<close>

fun rulesLoop :: "world \<Rightarrow> string \<Rightarrow> string list \<Rightarrow> string list \<Rightarrow> world \<times> (error + string list)" where
  "rulesLoop w dir [] rules = (w, Inr rules)"
| "rulesLoop w dir (file # rest) rules =
     (if extname file = ''.md''
      then (case parseMarkdownFile w (path_join dir file) of
              (w', Inl err) \<Rightarrow> (w', Inl err)
            | (w', Inr fact') \<Rightarrow>
                if ''UNFINISHED'' \<notin> set (tags fact')
                then rulesLoop w' dir rest (addFactRules rules fact')
                else rulesLoop w' dir rest rules)
      else rulesLoop w dir rest rules)"

text \<open>
  Line 138: \<open>[...rules].map(rule => JSON.parse(rule))\<close>, a \<open>SyntaxError\<close> if one
  of the keys does not parse.
\<close>

definition parseRules :: "string list \<Rightarrow> error + json list" where
  "parseRules rules =
     (case those (map JSON_parse rules) of
        None \<Rightarrow> Inl (SyntaxError ''JSON.parse'')
      | Some objs \<Rightarrow> Inr objs)"

text \<open>
  Lines 88 to 138 up to the array that is serialized: the rules collection of a
  run.
\<close>

definition rulesCollection :: "world \<Rightarrow> string \<Rightarrow> world \<times> (error + json list)" where
  "rulesCollection w markdownDir =
     (case readdir w markdownDir of
        Inl err \<Rightarrow> (w, Inl err)
      | Inr entries \<Rightarrow>
          (case rulesLoop w markdownDir entries [] of
             (w1, Inl err) \<Rightarrow> (w1, Inl err)
           | (w1, Inr rules) \<Rightarrow> (w1, parseRules rules)))"

text \<open>Lines 88 to 139: the \<open>try\<close> block.\<close>

definition generateRulesJSON_try :: "world \<Rightarrow> string \<Rightarrow> string \<Rightarrow> world \<times> (error + unit)" where
  "generateRulesJSON_try w markdownDir outputFile =
     (case rulesCollection w markdownDir of
        (w1, Inl err) \<Rightarrow> (w1, Inl err)
      | (w1, Inr objs) \<Rightarrow>
          (case writeFile w1 outputFile (JSON_stringify_2 (JArray objs)) of
             (w2, Inl err) \<Rightarrow> (w2, Inl err)
           | (w2, Inr _) \<Rightarrow>
               (console_log w2 (''Rules JSON generated at '' @ outputFile), Inr ())))"

definition generateRulesJSON :: "world \<Rightarrow> string \<Rightarrow> string \<Rightarrow> world \<times> (error + unit)" where
  "generateRulesJSON w markdownDir outputFile =
     (case generateRulesJSON_try w markdownDir outputFile of
        (w', Inl err) \<Rightarrow> (console_error w' ''Error generating rules JSON:'' err, Inr ())
      | (w', Inr _) \<Rightarrow> (w', Inr ()))"

section \<open>The script\<close>

definition markdownDir :: string where
  "markdownDir = ''./markdown''"

definition factsOutputFile :: string where
  "factsOutputFile = ''./facts.json''"

definition rulesOutputFile :: string where
  "rulesOutputFile = ''./rules.json''"

text \<open>
  Lines 151 to 158: the two passes one after the other, the second only when the
  first did not throw, and the \<open>catch\<close> that prints what either throws.
\<close>

definition main :: "world \<Rightarrow> world" where
  "main w =
     (case generateFactsJSON w markdownDir factsOutputFile of
        (w1, Inl err) \<Rightarrow> console_error w1 ''Error in script execution:'' err
      | (w1, Inr _) \<Rightarrow>
          (case generateRulesJSON w1 markdownDir rulesOutputFile of
             (w2, Inl err) \<Rightarrow> console_error w2 ''Error in script execution:'' err
           | (w2, Inr _) \<Rightarrow> w2))"

section \<open>Definitions for the statements and their proofs\<close>

text \<open>
  The tag candidates of the bullet lines as the specification words them: for
  every line starting with \<open>- \<close>, the remainder split on \<open>-\<close>, the pieces
  trimmed.
\<close>

definition spec_bulletCandidates :: "string \<Rightarrow> string list" where
  "spec_bulletCandidates content =
     concat (map (\<lambda>line. map trim (split CHR ''-'' (slice_from 2 line)))
                 (filter (\<lambda>line. startsWith line ''- '') (split CHR 0x0A content)))"

text \<open>Deduplication that keeps the first occurrence of every element, in order.\<close>

function dedup_first :: "'a list \<Rightarrow> 'a list" where
  "dedup_first [] = []"
| "dedup_first (x # xs) = x # dedup_first (removeAll x xs)"
  by pat_completeness auto
termination
  by (relation "measure length") (auto simp: less_Suc_eq_le)

text \<open>
  The rule objects lines 99 to 132 build for one fact, in the order they are
  built: one per tag, then the one of the body.
\<close>

definition factRules :: "fact \<Rightarrow> json list" where
  "factRules f = map (\<lambda>tag. tagMatchRule tag f) (tags f) @ [bodyMatchRule f]"

text \<open>A bound on the recursion depth \<open>parse_value\<close> needs for the text of a value.\<close>

fun fuel :: "json \<Rightarrow> nat" where
  "fuel (JString s) = 1"
| "fuel (JArray vs) = Suc (length vs + sum_list (map fuel vs))"
| "fuel (JObject ps) = Suc (length ps + sum_list (map (\<lambda>kv. fuel (snd kv)) ps))"

text \<open>
  The text a pass hands to \<open>writeFile\<close>, if it gets that far: none when the
  listing, a read or \<open>JSON.parse\<close> fails.
\<close>

definition factsText :: "world \<Rightarrow> string \<Rightarrow> string option" where
  "factsText w dir =
     (case readdir w dir of
        Inl err \<Rightarrow> None
      | Inr entries \<Rightarrow>
          (case snd (factsLoop w dir entries []) of
             Inl err \<Rightarrow> None
           | Inr facts \<Rightarrow> Some (JSON_stringify_2 (JArray (map fact_json facts)))))"

definition rulesText :: "world \<Rightarrow> string \<Rightarrow> string option" where
  "rulesText w dir =
     (case snd (rulesCollection w dir) of
        Inl err \<Rightarrow> None
      | Inr objs \<Rightarrow> Some (JSON_stringify_2 (JArray objs)))"

text \<open>
  Two worlds with the same documents in \<open>dir\<close>: the same renderer and the same
  content under every path of an entry of \<open>dir\<close>. They are the same input to a
  pass when they also list \<open>dir\<close> alike and can write the same paths.
\<close>

definition same_documents :: "string \<Rightarrow> world \<Rightarrow> world \<Rightarrow> bool" where
  "same_documents dir w w' =
     (marked_parse w = marked_parse w'
      \<and> (\<forall>file. files w (path_join dir file) = files w' (path_join dir file)))"

definition same_input :: "string \<Rightarrow> world \<Rightarrow> world \<Rightarrow> bool" where
  "same_input dir w w' =
     (listing w dir = listing w' dir \<and> writable w = writable w' \<and> same_documents dir w w')"

text \<open>
  A world for examples: the entries of the markdown directory, the files by
  path, every path writable, a renderer that wraps the text in a paragraph, and
  an empty console.
\<close>

definition example_world :: "string list \<Rightarrow> (string \<times> string) list \<Rightarrow> world" where
  "example_world entries contents =
     \<lparr>listing = (\<lambda>dir. if dir = markdownDir then Some entries else None),
      files = map_of contents,
      writable = (\<lambda>p. True),
      marked_parse = (\<lambda>c. ''<p>'' @ c @ ''</p>''),
      console = []\<rparr>"

section \<open>Strings and tags\<close>

lemma split_not_Nil: "split c s \<noteq> []"
  by (induction s) (auto split: list.splits)

lemma bulletTags_acc:
  "bulletTags acc ls =
     acc @ concat (map (\<lambda>line. map trim (split CHR ''-'' (slice_from 2 line)))
                       (filter (\<lambda>line. startsWith line ''- '') ls))"
  by (induction ls arbitrary: acc) auto

lemma removeAll_filter_conj: "removeAll x (filter P xs) = filter (\<lambda>y. P y \<and> y \<noteq> x) xs"
  by (induction xs) auto

lemma foldl_set_add_dedup:
  "foldl set_add acc xs = acc @ dedup_first (filter (\<lambda>x. x \<notin> set acc) xs)"
proof (induction xs arbitrary: acc)
  case Nil
  show ?case by simp
next
  case (Cons x xs)
  show ?case
  proof (cases "x \<in> set acc")
    case True
    then show ?thesis using Cons.IH [of acc] by (simp add: set_add_def)
  next
    case False
    have "foldl set_add acc (x # xs) = foldl set_add (acc @ [x]) xs"
      using False by (simp add: set_add_def)
    also have "\<dots> = (acc @ [x]) @ dedup_first (filter (\<lambda>y. y \<notin> set (acc @ [x])) xs)"
      by (rule Cons.IH)
    also have "\<dots> = acc @ dedup_first (filter (\<lambda>y. y \<notin> set acc) (x # xs))"
      using False by (simp add: removeAll_filter_conj conj_commute)
    finally show ?thesis .
  qed
qed

lemma array_from_set_dedup: "array_from_set xs = dedup_first xs"
  by (simp add: array_from_set_def foldl_set_add_dedup)

lemma dedup_first_set: "set (dedup_first xs) = set xs"
  by (induction xs rule: dedup_first.induct) auto

lemma dedup_first_distinct: "distinct (dedup_first xs)"
  by (induction xs rule: dedup_first.induct) (auto simp: dedup_first_set)

lemma parseContent_total: "\<exists>f. parseContent render fileName content = Inr f"
  by (cases "split CHR 0x0A content")
     (auto simp: parseContent_def split_not_Nil Let_def split: prod.splits)

section \<open>JSON.parse reads back what JSON.stringify writes\<close>

lemma hex_value_hex_digit: 
  assumes "n < 16" shows "hex_value (hex_digit n) = Some n"
proof -
  from assms have "n \<in> {0, 1, 2, 3, 4, 5, 6, 7, 8, 9, 10, 11, 12, 13, 14, 15}"
    by simp arith
  then show ?thesis
    by (auto simp: hex_digit_def hex_value_def)
qed

lemma hex4_ctl:
  assumes "n < 32"
  shows "hex4 CHR ''0'' CHR ''0'' (hex_digit (n div 16)) (hex_digit (n mod 16)) = Some n"
proof -
  have z: "hex_value CHR ''0'' = Some 0"
    by (simp add: hex_value_def)
  have "n div 16 < 16" using assms by simp
  then have a: "hex_value (hex_digit (n div 16)) = Some (n div 16)"
    by (rule hex_value_hex_digit)
  have b: "hex_value (hex_digit (n mod 16)) = Some (n mod 16)"
    by (rule hex_value_hex_digit) simp
  show ?thesis
    by (simp add: hex4_def z a b)
qed

lemma parse_string_quote_char:
  "parse_string (quote_char c @ rest) = cons_fst c (parse_string rest)"
proof (cases "c \<in> set [CHR 0x08, CHR 0x09, CHR 0x0A, CHR 0x0C, CHR 0x0D, CHR 0x22, CHR 0x5C]")
  case True
  then show ?thesis
    by (auto simp: quote_char_def unescape_def)
next
  case special: False
  show ?thesis
  proof (cases "(of_char c :: nat) < 0x20")
    case True
    then have "hex4 CHR ''0'' CHR ''0'' (hex_digit (of_char c div 16)) (hex_digit (of_char c mod 16))
                 = Some (of_char c)"
      by (intro hex4_ctl) simp
    moreover have "(of_char c :: nat) < 256" using True by simp
    ultimately show ?thesis
      using special True by (simp add: quote_char_def)
  next
    case False
    then show ?thesis
      using special by (simp add: quote_char_def)
  qed
qed

lemma parse_string_quoted:
  "parse_string (concat (map quote_char s) @ CHR 0x22 # rest) = Some (s, rest)"
  by (induction s) (simp_all add: parse_string_quote_char cons_fst_def)

lemma join_Cons: "join sep (x # xs) = (if xs = [] then x else x @ sep @ join sep xs)"
  by (cases xs) simp_all

lemma ser_JArray: "(serialize [] []) (JArray vs) = (if vs = [] then ''[]'' else ''['' @ join '','' (map (serialize [] []) vs) @ '']'')"
  by simp

lemma ser_JObject:
  "(serialize [] []) (JObject ps) =
     (if ps = [] then ''{}''
      else ''{'' @ join '','' (map (\<lambda>kv. quote (fst kv) @ '':'' @ (serialize [] []) (snd kv)) ps) @ ''}'')"
  by simp

lemma ser_first: "\<exists>c cs. (serialize [] []) v = c # cs \<and> c \<noteq> CHR '']''"
  by (cases v) (auto simp: quote_def Let_def)

lemma parse_elements_ser:
  assumes "\<And>v n rest. v \<in> set vs \<Longrightarrow> fuel v \<le> n \<Longrightarrow> parse_value n ((serialize [] []) v @ rest) = Some (v, rest)"
    and "vs \<noteq> []"
    and "length vs + sum_list (map fuel vs) \<le> n"
  shows "parse_elements n (join '','' (map (serialize [] []) vs) @ CHR '']'' # rest) = Some (vs, rest)"
  using assms
proof (induction vs arbitrary: n)
  case Nil
  then show ?case by simp
next
  case (Cons v vs)
  from Cons.prems(3) obtain m where n: "n = Suc m"
    by (cases n) auto
  have fv: "fuel v \<le> m" using Cons.prems(3) n by simp
  have pv: "parse_value m ((serialize [] []) v @ r) = Some (v, r)" for r
    using Cons.prems(1) [of v m r] fv by simp
  show ?case
  proof (cases "vs = []")
    case True
    then show ?thesis using pv [of "CHR '']'' # rest"] n by simp
  next
    case False
    have "parse_elements m (join '','' (map (serialize [] []) vs) @ CHR '']'' # rest) = Some (vs, rest)"
      using Cons.prems n False by (intro Cons.IH) auto
    then show ?thesis
      using pv [of "CHR '','' # join '','' (map (serialize [] []) vs) @ CHR '']'' # rest"] n False
      by (simp add: join_Cons cons_fst_def)
  qed
qed

lemma parse_members_ser:
  assumes "\<And>k v n rest. (k, v) \<in> set ps \<Longrightarrow> fuel v \<le> n \<Longrightarrow> parse_value n ((serialize [] []) v @ rest) = Some (v, rest)"
    and "ps \<noteq> []"
    and "length ps + sum_list (map (\<lambda>kv. fuel (snd kv)) ps) \<le> n"
  shows "parse_members n (join '','' (map (\<lambda>kv. quote (fst kv) @ '':'' @ (serialize [] []) (snd kv)) ps) @ CHR ''}'' # rest)
           = Some (ps, rest)"
  using assms
proof (induction ps arbitrary: n)
  case Nil
  then show ?case by simp
next
  case (Cons p ps)
  obtain k v where p: "p = (k, v)" by (cases p)
  from Cons.prems(3) obtain m where n: "n = Suc m"
    by (cases n) auto
  have fv: "fuel v \<le> m" using Cons.prems(3) n p by simp
  have pv: "parse_value m ((serialize [] []) v @ r) = Some (v, r)" for r
    using Cons.prems(1) [of k v m r] fv p by simp
  have pk: "parse_string (concat (map quote_char k) @ CHR 0x22 # r) = Some (k, r)" for r
    by (rule parse_string_quoted)
  show ?case
  proof (cases "ps = []")
    case True
    then show ?thesis using pv [of "CHR ''}'' # rest"] n p pk by (simp add: quote_def)
  next
    case False
    have "parse_members m (join '','' (map (\<lambda>kv. quote (fst kv) @ '':'' @ (serialize [] []) (snd kv)) ps) @ CHR ''}'' # rest)
            = Some (ps, rest)"
      using Cons.prems n False by (intro Cons.IH) auto
    then show ?thesis
      using pv [of "CHR '','' # join '','' (map (\<lambda>kv. quote (fst kv) @ '':'' @ (serialize [] []) (snd kv)) ps) @ CHR ''}'' # rest"] n False p pk
      by (simp add: join_Cons cons_fst_def quote_def)
  qed
qed

lemma parse_value_ser:
  "fuel v \<le> n \<Longrightarrow> parse_value n ((serialize [] []) v @ rest) = Some (v, rest)"
proof (induction v arbitrary: n rest)
  case (JString s)
  then obtain m where "n = Suc m" by (cases n) auto
  then show ?case by (simp add: quote_def parse_string_quoted)
next
  case (JArray vs)
  from JArray.prems obtain m where n: "n = Suc m" by (cases n) auto
  show ?case
  proof (cases "vs = []")
    case True
    then show ?thesis using n by simp
  next
    case False
    have pe: "parse_elements m (join '','' (map (serialize [] []) vs) @ CHR '']'' # rest) = Some (vs, rest)"
      using JArray.IH JArray.prems n False by (intro parse_elements_ser) auto
    obtain c cs where c: "(serialize [] []) (hd vs) = c # cs" "c \<noteq> CHR '']''"
      using ser_first by blast
    have "\<exists>ds. join '','' (map (serialize [] []) vs) @ CHR '']'' # rest = c # ds"
      using False c by (cases vs) (simp_all add: join_Cons)
    then obtain d ds where d: "join '','' (map (serialize [] []) vs) @ CHR '']'' # rest = d # ds" "d \<noteq> CHR '']''"
      using c(2) by blast
    show ?thesis
      using False n pe d by (simp del: serialize.simps add: ser_JArray)
  qed
next
  case (JObject ps)
  from JObject.prems obtain m where n: "n = Suc m" by (cases n) auto
  show ?case
  proof (cases "ps = []")
    case True
    then show ?thesis using n by simp
  next
    case False
    let ?body = "join '','' (map (\<lambda>kv. quote (fst kv) @ '':'' @ (serialize [] []) (snd kv)) ps) @ CHR ''}'' # rest"
    have pe: "parse_members m ?body = Some (ps, rest)"
    proof (rule parse_members_ser)
      fix k v n' r
      assume "(k, v) \<in> set ps" "fuel v \<le> n'"
      then show "parse_value n' ((serialize [] []) v @ r) = Some (v, r)"
        using JObject.IH [of "(k, v)" v n' r] by simp
    next
      show "ps \<noteq> []" by (rule False)
    next
      show "length ps + sum_list (map (\<lambda>kv. fuel (snd kv)) ps) \<le> m"
        using JObject.prems n by simp
    qed
    have "\<exists>ds. ?body = CHR 0x22 # ds"
      using False by (cases ps) (simp_all add: join_Cons quote_def)
    then obtain ds where d: "?body = CHR 0x22 # ds"
      by blast
    show ?thesis
      using False n pe d by (simp del: serialize.simps add: ser_JObject)
  qed
qed

lemma length_join_comma: "length (join '','' xs) = sum_list (map length xs) + (length xs - 1)"
  by (induction "'',''" xs rule: join.induct) auto

lemma fuel_le_length: "fuel v \<le> length ((serialize [] []) v)"
proof (induction v)
  case (JString s)
  show ?case by (simp add: quote_def)
next
  case (JArray vs)
  have "sum_list (map fuel vs) \<le> sum_list (map (length \<circ> (serialize [] [])) vs)"
    using JArray.IH by (intro sum_list_mono) auto
  then show ?case
    by (cases "vs = []") (auto simp del: serialize.simps simp add: ser_JArray length_join_comma comp_def)
next
  case (JObject ps)
  have "sum_list (map (\<lambda>kv. fuel (snd kv)) ps)
          \<le> sum_list (map (\<lambda>kv. length (quote (fst kv) @ '':'' @ (serialize [] []) (snd kv))) ps)"
  proof (intro sum_list_mono)
    fix p assume p: "p \<in> set ps"
    have "snd p \<in> Basic_BNFs.snds p"
      by (cases p) simp
    with p have "fuel (snd p) \<le> length ((serialize [] []) (snd p))"
      by (rule JObject.IH)
    then show "fuel (snd p) \<le> length (quote (fst p) @ '':'' @ (serialize [] []) (snd p))"
      by simp
  qed
  then show ?case
    by (cases "ps = []") (auto simp del: serialize.simps simp add: ser_JObject length_join_comma comp_def)
qed

lemma JSON_parse_stringify: "JSON_parse (JSON_stringify v) = Some v"
  using parse_value_ser [OF fuel_le_length, of v "[]"]
  by (simp add: JSON_parse_def JSON_stringify_def)

lemma JSON_stringify_inject: "JSON_stringify a = JSON_stringify b \<Longrightarrow> a = b"
  by (metis JSON_parse_stringify option.inject)

lemma those_map_Some: "those (map Some xs) = Some xs"
  by (induction xs) simp_all

lemma parseRules_stringify: "parseRules (map JSON_stringify objs) = Inr objs"
proof -
  have "map JSON_parse (map JSON_stringify objs) = map Some objs"
    by (simp add: JSON_parse_stringify)
  then show ?thesis
    unfolding parseRules_def by (simp only: those_map_Some option.case)
qed

section \<open>Paths and the parser\<close>

lemma join_split: "join [c] (split c s) = s"
proof (induction s)
  case Nil
  show ?case by simp
next
  case (Cons x xs)
  obtain p ps where sp: "split c xs = p # ps"
    using split_not_Nil [of c xs] by (cases "split c xs") auto
  show ?case
  proof (cases "x = c")
    case True
    then show ?thesis using Cons.IH sp by simp
  next
    case False
    then show ?thesis using Cons.IH sp by (cases ps) auto
  qed
qed

lemma last_component_join:
  "CHR ''/'' \<notin> set file \<Longrightarrow> last_component (path_join dir file) = file"
  by (simp add: last_component_def path_join_def takeWhile_append)

lemma last_component_plain:
  assumes "CHR ''/'' \<notin> set file"
  shows "last_component file = file"
proof -
  have "takeWhile (\<lambda>c. c \<noteq> CHR ''/'') (rev file) = rev file"
    using assms by (intro takeWhile_eq_all_conv [THEN iffD2]) auto
  then show ?thesis
    unfolding last_component_def by (simp only: rev_rev_ident)
qed

lemma extname_md_stem:
  assumes "extname file = ''.md''" and "CHR ''/'' \<notin> set file"
  shows "\<exists>stem. stem \<noteq> [] \<and> file = stem @ ''.md''"
proof -
  let ?P = "\<lambda>c. c \<noteq> CHR ''.''"
  have b: "last_component file = file"
    using assms(2) by (rule last_component_plain)
  have dot: "CHR ''.'' \<in> set file"
    and len: "length (takeWhile ?P (rev file)) + 1 \<noteq> length file"
    and ext: "rev (takeWhile ?P (rev file)) = ''md''"
    using assms(1) unfolding extname_def b Let_def
    by (auto split: if_splits)
  have "dropWhile ?P (rev file) \<noteq> []"
    using dot by (simp add: dropWhile_eq_Nil_conv)
  moreover have "hd (dropWhile ?P (rev file)) = CHR ''.''"
    using hd_dropWhile [of ?P "rev file"] \<open>dropWhile ?P (rev file) \<noteq> []\<close> by simp
  ultimately obtain r where r: "dropWhile ?P (rev file) = CHR ''.'' # r"
    by (cases "dropWhile ?P (rev file)") auto
  have "rev file = takeWhile ?P (rev file) @ dropWhile ?P (rev file)"
    by simp
  then have "rev file = rev ''md'' @ CHR ''.'' # r"
    using ext r by (metis rev_rev_ident)
  then have "rev (rev file) = rev (rev ''md'' @ CHR ''.'' # r)"
    by simp
  then have fl: "file = rev r @ ''.md''"
    by simp
  have "length (takeWhile ?P (rev file)) = 2"
    using ext by (metis length_rev length_Cons list.size(3) numeral_2_eq_2)
  then have "r \<noteq> []"
    using len fl by auto
  then show ?thesis using fl by auto
qed

lemma basename_md:
  assumes "extname file = ''.md''" and "CHR ''/'' \<notin> set file"
  shows "basename (path_join dir file) ''.md'' @ ''.md'' = file"
proof -
  obtain stem where stem: "stem \<noteq> []" "file = stem @ ''.md''"
    using extname_md_stem [OF assms] by blast
  have "last_component (path_join dir file) = stem @ ''.md''"
    using assms(2) stem(2) last_component_join by simp
  then show ?thesis
    using stem by (simp add: basename_def endsWith_def)
qed

lemma parseMarkdownFile_read:
  assumes "files w p = Some content"
  shows "parseMarkdownFile w p = (w, parseContent (marked_parse w) (basename p ''.md'') content)"
  using assms parseContent_total [of "marked_parse w" "basename p ''.md''" content]
  by (auto simp: parseMarkdownFile_def readFile_def)

lemma parseContent_no_header:
  assumes "\<not> startsWith (hd (split CHR 0x0A content)) ''# ''"
  shows "parseContent render fileName content =
           Inr \<lparr>title = fileName, body = content,
                tags = parseTags content (split CHR 0x0A content), htmlContent = render content\<rparr>"
  using assms split_not_Nil [of "CHR 0x0A" content]
  by (cases "split CHR 0x0A content") (simp_all add: parseContent_def)

lemma parseContent_header:
  assumes "startsWith (hd (split CHR 0x0A content)) ''# ''"
  shows "parseContent render fileName content =
           Inr \<lparr>title = (if trim (slice_from 2 (hd (split CHR 0x0A content))) = [] then fileName
                          else trim (slice_from 2 (hd (split CHR 0x0A content)))),
                body = join [CHR 0x0A] (tl (split CHR 0x0A content)),
                tags = parseTags content (split CHR 0x0A content), htmlContent = render content\<rparr>"
  using assms split_not_Nil [of "CHR 0x0A" content]
  by (cases "split CHR 0x0A content") (simp_all add: parseContent_def slice_from_def drop_Suc)

section \<open>The loops over the directory entries\<close>

lemma parseMarkdownFile_cases:
  "(\<exists>f. parseMarkdownFile w p = (w, Inr f))
   \<or> parseMarkdownFile w p
        = (console_error w (''Error reading file '' @ p @ '':'') (ReadError p), Inl (ReadError p))"
proof (cases "files w p")
  case None
  then show ?thesis by (simp add: parseMarkdownFile_def readFile_def)
next
  case (Some content)
  then show ?thesis
    using parseMarkdownFile_read [OF Some] parseContent_total [of "marked_parse w" "basename p ''.md''" content]
    by auto
qed

lemma parseMarkdownFile_Inr: "parseMarkdownFile w p = (w', Inr f) \<Longrightarrow> w' = w"
  using parseMarkdownFile_cases [of w p] by auto

lemma factsLoop_Inr: "factsLoop w dir es acc = (w', Inr fs) \<Longrightarrow> w' = w"
proof (induction es arbitrary: w acc)
  case Nil
  then show ?case by simp
next
  case (Cons e es)
  show ?case
  proof (cases "extname e = ''.md''")
    case False
    then show ?thesis using Cons by simp
  next
    case True
    show ?thesis
      using parseMarkdownFile_cases [of w "path_join dir e"] Cons True
      by (auto split: if_splits)
  qed
qed

lemma factsLoop_acc:
  "factsLoop w dir es acc =
     (case factsLoop w dir es [] of
        (w', Inl err) \<Rightarrow> (w', Inl err)
      | (w', Inr fs) \<Rightarrow> (w', Inr (acc @ fs)))"
proof (induction es arbitrary: w acc)
  case Nil
  show ?case by simp
next
  case (Cons e es)
  show ?case
  proof (cases "extname e = ''.md''")
    case False
    then show ?thesis using Cons [of w acc] by simp
  next
    case True
    show ?thesis
    proof (cases "parseMarkdownFile w (path_join dir e)")
      case (Pair w1 r)
      show ?thesis
      proof (cases r)
        case (Inl err)
        then show ?thesis using True Pair by simp
      next
        case (Inr f)
        show ?thesis
          using True Pair Inr Cons [of w1 "acc @ [f]"] Cons [of w1 "[f]"] Cons [of w1 acc]
          by (auto split: prod.splits sum.splits)
      qed
    qed
  qed
qed

lemma rulesLoop_facts:
  "rulesLoop w dir es rules =
     (case factsLoop w dir es [] of
        (w', Inl err) \<Rightarrow> (w', Inl err)
      | (w', Inr fs) \<Rightarrow> (w', Inr (foldl addFactRules rules fs)))"
proof (induction es arbitrary: w rules)
  case Nil
  show ?case by simp
next
  case (Cons e es)
  show ?case
  proof (cases "extname e = ''.md''")
    case False
    then show ?thesis using Cons [of w rules] by simp
  next
    case True
    show ?thesis
    proof (cases "parseMarkdownFile w (path_join dir e)")
      case (Pair w1 r)
      show ?thesis
      proof (cases r)
        case (Inl err)
        then show ?thesis using True Pair by simp
      next
        case (Inr f)
        show ?thesis
          using True Pair Inr Cons [of w1 "addFactRules rules f"] Cons [of w1 rules]
            factsLoop_acc [of w1 dir es "[f]"]
          by (auto split: prod.splits sum.splits)
      qed
    qed
  qed
qed

lemma factsLoop_append:
  "factsLoop w dir (xs @ ys) acc =
     (case factsLoop w dir xs acc of
        (w', Inl err) \<Rightarrow> (w', Inl err)
      | (w', Inr fs) \<Rightarrow> factsLoop w' dir ys fs)"
proof (induction xs arbitrary: w acc)
  case Nil
  show ?case by simp
next
  case (Cons e es)
  show ?case
    using Cons by (auto split: prod.splits sum.splits)
qed

lemma stringify_mem: "JSON_stringify r \<in> JSON_stringify ` set objs \<longleftrightarrow> r \<in> set objs"
  using JSON_stringify_inject by auto

lemma set_add_stringify:
  "set_add (map JSON_stringify objs) (JSON_stringify r) = map JSON_stringify (set_add objs r)"
  by (simp add: set_add_def stringify_mem)

lemma addTagRule_objs:
  "addTagRule f (map JSON_stringify objs) tag = map JSON_stringify (set_add objs (tagMatchRule tag f))"
  using set_add_stringify [of objs "tagMatchRule tag f"]
  by (simp add: addTagRule_def Let_def set_add_def stringify_mem)

lemma foldl_addTagRule_objs:
  "foldl (addTagRule f) (map JSON_stringify objs) ts
     = map JSON_stringify (foldl set_add objs (map (\<lambda>tag. tagMatchRule tag f) ts))"
  by (induction ts arbitrary: objs) (simp_all add: addTagRule_objs)

lemma addFactRules_objs:
  "addFactRules (map JSON_stringify objs) f = map JSON_stringify (foldl set_add objs (factRules f))"
proof -
  let ?o = "foldl set_add objs (map (\<lambda>tag. tagMatchRule tag f) (tags f))"
  have "addFactRules (map JSON_stringify objs) f
          = set_add (map JSON_stringify ?o) (JSON_stringify (bodyMatchRule f))"
    by (simp add: addFactRules_def Let_def foldl_addTagRule_objs set_add_def)
  then show ?thesis
    by (simp add: set_add_stringify factRules_def)
qed

lemma foldl_addFactRules_objs:
  "foldl addFactRules (map JSON_stringify objs) fs
     = map JSON_stringify (foldl set_add objs (concat (map factRules fs)))"
  by (induction fs arbitrary: objs) (simp_all add: addFactRules_objs)

lemma rulesCollection_facts:
  assumes "listing w dir = Some es" and "factsLoop w dir es [] = (w', Inr fs)"
  shows "rulesCollection w dir = (w, Inr (dedup_first (concat (map factRules fs))))"
proof -
  have w': "w' = w" using assms(2) by (rule factsLoop_Inr)
  have "rulesLoop w dir es [] = (w, Inr (foldl addFactRules (map JSON_stringify []) fs))"
    using rulesLoop_facts [of w dir es "[]"] assms(2) w' by simp
  then have "rulesLoop w dir es []
               = (w, Inr (map JSON_stringify (dedup_first (concat (map factRules fs)))))"
    unfolding foldl_addFactRules_objs by (simp add: foldl_set_add_dedup)
  then show ?thesis
    using assms(1) by (simp add: rulesCollection_def readdir_def parseRules_stringify)
qed

section \<open>Rule objects\<close>

lemmas eval_defs =
  example_world_def markdownDir_def extname_def last_component_def
  parseMarkdownFile_def readFile_def readdir_def path_join_def parseContent_def basename_def
  endsWith_def startsWith_def slice_from_def trim_def is_space_def is_word_def parseTags_def
  array_from_set_def set_add_def

lemma tagMatchRule_eq:
  "tagMatchRule t f = tagMatchRule t' g \<longleftrightarrow> t = t' \<and> title f = title g \<and> body f = body g"
  by (auto simp: tagMatchRule_def)

lemma bodyMatchRule_eq:
  "bodyMatchRule f = bodyMatchRule g \<longleftrightarrow> title f = title g \<and> body f = body g"
  by (auto simp: bodyMatchRule_def)

lemma tagMatchRule_in_factRules: "t \<in> set (tags f) \<Longrightarrow> tagMatchRule t f \<in> set (factRules f)"
  by (simp add: factRules_def)

lemma bodyMatchRule_in_factRules: "bodyMatchRule f \<in> set (factRules f)"
  by (simp add: factRules_def)

lemma length_filter_two:
  assumes "distinct xs" and "a \<in> set xs" and "b \<in> set xs"
  shows "length (filter (\<lambda>r. r = a \<or> r = b) xs) = (if a = b then 1 else 2)"
proof -
  have "length (filter (\<lambda>r. r = a \<or> r = b) xs) = card ({r. r = a \<or> r = b} \<inter> set xs)"
    using assms(1) by (rule distinct_length_filter)
  also have "{r. r = a \<or> r = b} \<inter> set xs = {a, b}"
    using assms(2,3) by auto
  finally show ?thesis by auto
qed

section \<open>What a pass reads and writes\<close>

lemma rulesLoop_append:
  "rulesLoop w dir (xs @ ys) rules =
     (case rulesLoop w dir xs rules of
        (w', Inl err) \<Rightarrow> (w', Inl err)
      | (w', Inr rs) \<Rightarrow> rulesLoop w' dir ys rs)"
proof (induction xs arbitrary: w rules)
  case Nil
  show ?case by simp
next
  case (Cons e es)
  show ?case
    using Cons by (auto split: prod.splits sum.splits)
qed

lemma rulesLoop_Inr: "rulesLoop w dir es rules = (w', Inr rs) \<Longrightarrow> w' = w"
  using rulesLoop_facts [of w dir es rules] factsLoop_Inr [of w dir es "[]"]
  by (auto split: prod.splits sum.splits)

lemma parseMarkdownFile_frame:
  "listing (fst (parseMarkdownFile w p)) = listing w
   \<and> files (fst (parseMarkdownFile w p)) = files w
   \<and> writable (fst (parseMarkdownFile w p)) = writable w
   \<and> marked_parse (fst (parseMarkdownFile w p)) = marked_parse w"
  using parseMarkdownFile_cases [of w p] by (auto simp: console_error_def)

lemma factsLoop_frame:
  "listing (fst (factsLoop w dir es acc)) = listing w
   \<and> files (fst (factsLoop w dir es acc)) = files w
   \<and> writable (fst (factsLoop w dir es acc)) = writable w
   \<and> marked_parse (fst (factsLoop w dir es acc)) = marked_parse w"
proof (induction es arbitrary: w acc)
  case Nil
  show ?case by simp
next
  case (Cons e es)
  show ?case
  proof (cases "extname e = ''.md''")
    case False
    then show ?thesis using Cons [of w acc] by simp
  next
    case True
    show ?thesis
      using parseMarkdownFile_cases [of w "path_join dir e"]
    proof
      assume "\<exists>f. parseMarkdownFile w (path_join dir e) = (w, Inr f)"
      then obtain f where "parseMarkdownFile w (path_join dir e) = (w, Inr f)" ..
      then show ?thesis
        using True Cons [of w "acc @ [f]"] Cons [of w acc] by simp
    next
      assume "parseMarkdownFile w (path_join dir e)
                = (console_error w (''Error reading file '' @ path_join dir e @ '':'')
                     (ReadError (path_join dir e)), Inl (ReadError (path_join dir e)))"
      then show ?thesis
        using True by (simp add: console_error_def)
    qed
  qed
qed

lemma parseMarkdownFile_same:
  assumes "same_documents dir w w'"
  shows "snd (parseMarkdownFile w (path_join dir e)) = snd (parseMarkdownFile w' (path_join dir e))"
proof -
  have "files w (path_join dir e) = files w' (path_join dir e)" "marked_parse w = marked_parse w'"
    using assms by (auto simp: same_documents_def)
  then show ?thesis
    by (cases "files w' (path_join dir e)")
       (auto simp: parseMarkdownFile_def readFile_def split: sum.splits)
qed

lemma factsLoop_same:
  assumes "same_documents dir w w'"
  shows "snd (factsLoop w dir es acc) = snd (factsLoop w' dir es acc)"
  using assms
proof (induction es arbitrary: w w' acc)
  case Nil
  show ?case by simp
next
  case (Cons e es)
  show ?case
  proof (cases "extname e = ''.md''")
    case False
    then show ?thesis using Cons.IH [OF Cons.prems, of acc] by simp
  next
    case True
    have s: "snd (parseMarkdownFile w (path_join dir e)) = snd (parseMarkdownFile w' (path_join dir e))"
      using Cons.prems by (rule parseMarkdownFile_same)
    show ?thesis
    proof (cases "snd (parseMarkdownFile w (path_join dir e))")
      case (Inl err)
      then show ?thesis
        using True s by (auto split: prod.splits)
    next
      case (Inr f)
      have a: "parseMarkdownFile w (path_join dir e) = (w, Inr f)"
        using Inr parseMarkdownFile_cases [of w "path_join dir e"] by auto
      have b: "parseMarkdownFile w' (path_join dir e) = (w', Inr f)"
        using Inr s parseMarkdownFile_cases [of w' "path_join dir e"] by auto
      show ?thesis
        using True a b Cons.IH [OF Cons.prems] by simp
    qed
  qed
qed

lemma rulesLoop_snd:
  "snd (rulesLoop w dir es rules) = map_sum id (foldl addFactRules rules) (snd (factsLoop w dir es []))"
  using rulesLoop_facts [of w dir es rules] by (auto split: prod.splits sum.splits)

lemma rulesLoop_fst: "fst (rulesLoop w dir es rules) = fst (factsLoop w dir es [])"
  using rulesLoop_facts [of w dir es rules] by (auto split: prod.splits sum.splits)

lemma rulesLoop_same:
  assumes "same_documents dir w w'"
  shows "snd (rulesLoop w dir es rules) = snd (rulesLoop w' dir es rules)"
  using factsLoop_same [OF assms] by (simp add: rulesLoop_snd)

lemma generateFactsJSON_files:
  "files (fst (generateFactsJSON w dir out)) =
     (case factsText w dir of
        None \<Rightarrow> files w
      | Some t \<Rightarrow> if writable w out then (files w)(out \<mapsto> t) else files w)"
proof (cases "readdir w dir")
  case (Inl err)
  then show ?thesis
    by (simp add: generateFactsJSON_def generateFactsJSON_try_def factsText_def console_error_def)
next
  case (Inr es)
  obtain w1 r where l: "factsLoop w dir es [] = (w1, r)"
    by (cases "factsLoop w dir es []")
  have fr: "files w1 = files w" "writable w1 = writable w"
    using factsLoop_frame [of w dir es "[]"] l by simp_all
  show ?thesis
    using Inr l fr
    by (cases r)
       (simp_all add: generateFactsJSON_def generateFactsJSON_try_def factsText_def
          console_error_def console_log_def writeFile_def)
qed

lemma generateFactsJSON_frame:
  "listing (fst (generateFactsJSON w dir out)) = listing w
   \<and> writable (fst (generateFactsJSON w dir out)) = writable w
   \<and> marked_parse (fst (generateFactsJSON w dir out)) = marked_parse w"
proof (cases "readdir w dir")
  case (Inl err)
  then show ?thesis
    by (simp add: generateFactsJSON_def generateFactsJSON_try_def console_error_def)
next
  case (Inr es)
  obtain w1 r where l: "factsLoop w dir es [] = (w1, r)"
    by (cases "factsLoop w dir es []")
  have fr: "listing w1 = listing w" "writable w1 = writable w" "marked_parse w1 = marked_parse w"
    using factsLoop_frame [of w dir es "[]"] l by simp_all
  show ?thesis
    using Inr l fr
    by (cases r)
       (simp_all add: generateFactsJSON_def generateFactsJSON_try_def
          console_error_def console_log_def writeFile_def)
qed

lemma rulesCollection_frame:
  "listing (fst (rulesCollection w dir)) = listing w
   \<and> files (fst (rulesCollection w dir)) = files w
   \<and> writable (fst (rulesCollection w dir)) = writable w
   \<and> marked_parse (fst (rulesCollection w dir)) = marked_parse w"
proof (cases "readdir w dir")
  case (Inl err)
  then show ?thesis
    by (simp add: rulesCollection_def)
next
  case (Inr es)
  obtain w1 r where l: "rulesLoop w dir es [] = (w1, r)"
    by (cases "rulesLoop w dir es []")
  have "w1 = fst (factsLoop w dir es [])"
    using rulesLoop_fst [of w dir es "[]"] l by simp
  then have fr: "listing w1 = listing w" "files w1 = files w" "writable w1 = writable w"
      "marked_parse w1 = marked_parse w"
    using factsLoop_frame [of w dir es "[]"] by simp_all
  show ?thesis
    using Inr l fr by (cases r) (simp_all add: rulesCollection_def)
qed

lemma generateRulesJSON_files:
  "files (fst (generateRulesJSON w dir out)) =
     (case rulesText w dir of
        None \<Rightarrow> files w
      | Some t \<Rightarrow> if writable w out then (files w)(out \<mapsto> t) else files w)"
proof -
  obtain w1 r where c: "rulesCollection w dir = (w1, r)"
    by (cases "rulesCollection w dir")
  have fr: "files w1 = files w" "writable w1 = writable w"
    using rulesCollection_frame [of w dir] c by simp_all
  show ?thesis
    using c fr
    by (cases r)
       (simp_all add: generateRulesJSON_def generateRulesJSON_try_def rulesText_def
          console_error_def console_log_def writeFile_def)
qed

lemma generateRulesJSON_frame:
  "listing (fst (generateRulesJSON w dir out)) = listing w
   \<and> writable (fst (generateRulesJSON w dir out)) = writable w
   \<and> marked_parse (fst (generateRulesJSON w dir out)) = marked_parse w"
proof -
  obtain w1 r where c: "rulesCollection w dir = (w1, r)"
    by (cases "rulesCollection w dir")
  have fr: "listing w1 = listing w" "writable w1 = writable w" "marked_parse w1 = marked_parse w"
    using rulesCollection_frame [of w dir] c by simp_all
  show ?thesis
    using c fr
    by (cases r)
       (simp_all add: generateRulesJSON_def generateRulesJSON_try_def
          console_error_def console_log_def writeFile_def)
qed

lemma factsText_same:
  assumes "same_input dir w w'"
  shows "factsText w dir = factsText w' dir"
proof -
  have "readdir w dir = readdir w' dir"
    using assms by (simp add: same_input_def readdir_def)
  moreover have "snd (factsLoop w dir es []) = snd (factsLoop w' dir es [])" for es
    using assms by (intro factsLoop_same) (simp add: same_input_def)
  ultimately show ?thesis
    by (cases "readdir w' dir") (simp_all add: factsText_def)
qed

lemma rulesCollection_snd:
  "snd (rulesCollection w dir) =
     (case readdir w dir of
        Inl err \<Rightarrow> Inl err
      | Inr es \<Rightarrow> (case snd (rulesLoop w dir es []) of
                     Inl err \<Rightarrow> Inl err
                   | Inr rules \<Rightarrow> parseRules rules))"
  by (auto simp: rulesCollection_def split: sum.splits prod.splits)

lemma rulesText_same:
  assumes "same_input dir w w'"
  shows "rulesText w dir = rulesText w' dir"
proof -
  have "readdir w dir = readdir w' dir"
    using assms by (simp add: same_input_def readdir_def)
  moreover have "snd (rulesLoop w dir es []) = snd (rulesLoop w' dir es [])" for es
    using assms by (intro rulesLoop_same) (simp add: same_input_def)
  ultimately have "snd (rulesCollection w dir) = snd (rulesCollection w' dir)"
    by (cases "readdir w' dir") (simp_all add: rulesCollection_snd)
  then show ?thesis
    by (simp add: rulesText_def)
qed

section \<open>The two passes of the script\<close>

lemma generateFactsJSON_returns: "snd (generateFactsJSON w dir out) = Inr ()"
  by (auto simp: generateFactsJSON_def split: prod.splits sum.splits)

lemma generateRulesJSON_returns: "snd (generateRulesJSON w dir out) = Inr ()"
  by (auto simp: generateRulesJSON_def split: prod.splits sum.splits)

lemma main_passes:
  "main w = fst (generateRulesJSON (fst (generateFactsJSON w markdownDir factsOutputFile))
                   markdownDir rulesOutputFile)"
proof -
  obtain w1 r1 where a: "generateFactsJSON w markdownDir factsOutputFile = (w1, r1)"
    by (cases "generateFactsJSON w markdownDir factsOutputFile")
  obtain w2 r2 where b: "generateRulesJSON w1 markdownDir rulesOutputFile = (w2, r2)"
    by (cases "generateRulesJSON w1 markdownDir rulesOutputFile")
  have "r1 = Inr ()" using generateFactsJSON_returns [of w markdownDir factsOutputFile] a by simp
  moreover have "r2 = Inr ()" using generateRulesJSON_returns [of w1 markdownDir rulesOutputFile] b by simp
  ultimately show ?thesis
    using a b by (simp add: main_def)
qed

lemma output_not_document:
  "path_join markdownDir file \<noteq> factsOutputFile" "path_join markdownDir file \<noteq> rulesOutputFile"
  by (simp_all add: path_join_def markdownDir_def factsOutputFile_def rulesOutputFile_def)

lemma outputs_differ: "factsOutputFile \<noteq> rulesOutputFile"
  by (simp add: factsOutputFile_def rulesOutputFile_def)

lemma same_input_refl: "same_input dir w w"
  by (simp add: same_input_def same_documents_def)

lemma same_input_trans: "same_input dir a b \<Longrightarrow> same_input dir b c \<Longrightarrow> same_input dir a c"
  by (simp add: same_input_def same_documents_def)

lemma same_input_facts:
  assumes "\<And>file. path_join dir file \<noteq> out"
  shows "same_input dir w (fst (generateFactsJSON w dir out))"
  using generateFactsJSON_frame [of w dir out] generateFactsJSON_files [of w dir out] assms
  by (auto simp: same_input_def same_documents_def split: option.splits)

lemma same_input_rules:
  assumes "\<And>file. path_join dir file \<noteq> out"
  shows "same_input dir w (fst (generateRulesJSON w dir out))"
  using generateRulesJSON_frame [of w dir out] generateRulesJSON_files [of w dir out] assms
  by (auto simp: same_input_def same_documents_def split: option.splits)

lemma same_input_main: "same_input markdownDir w (main w)"
  unfolding main_passes
  by (rule same_input_trans [OF same_input_facts same_input_rules])
     (simp_all add: output_not_document)

lemma main_files_facts:
  "files (main w) factsOutputFile =
     (case factsText w markdownDir of
        None \<Rightarrow> files w factsOutputFile
      | Some t \<Rightarrow> if writable w factsOutputFile then Some t else files w factsOutputFile)"
proof -
  let ?w1 = "fst (generateFactsJSON w markdownDir factsOutputFile)"
  have "files (main w) factsOutputFile = files ?w1 factsOutputFile"
    unfolding main_passes generateRulesJSON_files
    using outputs_differ by (simp split: option.splits)
  then show ?thesis
    by (simp add: generateFactsJSON_files split: option.splits)
qed

lemma main_files_rules:
  "files (main w) rulesOutputFile =
     (case rulesText w markdownDir of
        None \<Rightarrow> files w rulesOutputFile
      | Some t \<Rightarrow> if writable w rulesOutputFile then Some t else files w rulesOutputFile)"
proof -
  let ?w1 = "fst (generateFactsJSON w markdownDir factsOutputFile)"
  have s: "same_input markdownDir w ?w1"
    by (rule same_input_facts) (simp add: output_not_document)
  have t: "rulesText ?w1 markdownDir = rulesText w markdownDir"
    using rulesText_same [OF s] by simp
  have wr: "writable ?w1 = writable w"
    using generateFactsJSON_frame [of w markdownDir factsOutputFile] by simp
  have f: "files ?w1 rulesOutputFile = files w rulesOutputFile"
    using outputs_differ by (simp add: generateFactsJSON_files split: option.splits)
  show ?thesis
    unfolding main_passes generateRulesJSON_files t wr
    using f by (simp split: option.splits)
qed

lemma rules_pass_alone:
  "files (fst (generateRulesJSON w markdownDir rulesOutputFile)) rulesOutputFile =
     (case rulesText w markdownDir of
        None \<Rightarrow> files w rulesOutputFile
      | Some t \<Rightarrow> if writable w rulesOutputFile then Some t else files w rulesOutputFile)"
  by (simp add: generateRulesJSON_files split: option.splits)

lemma rulesLoop_skip_unfinished:
  assumes "parseMarkdownFile w (path_join dir file) = (w', Inr f)"
    and "''UNFINISHED'' \<in> set (tags f)"
  shows "factsLoop w dir (file # rest) facts = factsLoop w dir rest facts"
    and "rulesLoop w dir (file # rest) rules = rulesLoop w dir rest rules"
  using assms parseMarkdownFile_Inr [OF assms(1)] by simp_all

section \<open>The parser: tags, title and body\<close>

text \<open>
  C2: the tags of a parsed document are the bullet candidates followed by the
  inline hashtags of the whole text, trimmed and deduplicated keeping first
  occurrences; the text with the bullet line \<open>- a - b\<close> and the inline tags
  \<open>#b #c\<close> has the tags a, b, c.
\<close>

theorem tags_bullets_then_inline_dedup:
  "(\<exists>f. parseContent render fileName content = Inr f
        \<and> tags f = dedup_first (map trim (spec_bulletCandidates content @ inlineTags content))
        \<and> distinct (tags f))
   \<and> (\<exists>f. parseContent render fileName (''- a - b'' @ [CHR 0x0A] @ ''#b #c'') = Inr f
        \<and> tags f = [''a'', ''b'', ''c''])"
proof -
  have eq: "parseTags c (split CHR 0x0A c)
              = dedup_first (map trim (spec_bulletCandidates c @ inlineTags c))" for c
    by (simp add: parseTags_def spec_bulletCandidates_def bulletTags_acc array_from_set_dedup)
  have ex: "parseTags (''- a - b'' @ [CHR 0x0A] @ ''#b #c'')
              (split CHR 0x0A (''- a - b'' @ [CHR 0x0A] @ ''#b #c'')) = [''a'', ''b'', ''c'']"
    by code_simp
  have tg: "\<exists>f. parseContent render fileName c = Inr f \<and> tags f = parseTags c (split CHR 0x0A c)"
    for c
    using parseContent_header [of c render fileName] parseContent_no_header [of c render fileName]
    by (cases "startsWith (hd (split CHR 0x0A c)) ''# ''") auto
  show ?thesis
    using tg [of content] tg [of "''- a - b'' @ [CHR 0x0A] @ ''#b #c''"] eq [of content] ex
    by (auto simp: dedup_first_distinct)
qed

theorem tags_bullets_then_inline_dedup_witness:
  "\<exists>f. parseContent (\<lambda>c. c) ''n'' (''# T'' @ [CHR 0x0A] @ ''- x-y'' @ [CHR 0x0A] @ ''see #y'') = Inr f
       \<and> tags f = dedup_first (map trim (spec_bulletCandidates (''# T'' @ [CHR 0x0A] @ ''- x-y'' @ [CHR 0x0A] @ ''see #y'')
                                        @ inlineTags (''# T'' @ [CHR 0x0A] @ ''- x-y'' @ [CHR 0x0A] @ ''see #y'')))
       \<and> tags f = [''x'', ''y'']"
proof -
  let ?c = "''# T'' @ [CHR 0x0A] @ ''- x-y'' @ [CHR 0x0A] @ ''see #y''"
  have "dedup_first (map trim (spec_bulletCandidates ?c @ inlineTags ?c)) = [''x'', ''y'']"
    by (simp add: spec_bulletCandidates_def startsWith_def slice_from_def trim_def is_space_def
        is_word_def)
  then show ?thesis
    using tags_bullets_then_inline_dedup [of "\<lambda>c. c" "''n''" ?c] by auto
qed

text \<open>
  C4, as amended: when the first line starts with \<open># \<close>, the title is that line
  without the marker, trimmed, provided this is not empty, and the file's base
  name otherwise; the body is the remaining lines joined with newlines, so the
  text is the first line followed by the body.
\<close>

theorem header_title_and_body:
  assumes "files w p = Some content"
    and "startsWith (hd (split CHR 0x0A content)) ''# ''"
  shows "\<exists>f. parseMarkdownFile w p = (w, Inr f)
           \<and> title f = (if trim (slice_from 2 (hd (split CHR 0x0A content))) = []
                        then basename p ''.md''
                        else trim (slice_from 2 (hd (split CHR 0x0A content))))
           \<and> body f = join [CHR 0x0A] (tl (split CHR 0x0A content))
           \<and> content = hd (split CHR 0x0A content)
                          @ (if tl (split CHR 0x0A content) = [] then [] else CHR 0x0A # body f)"
proof -
  let ?lines = "split CHR 0x0A content"
  obtain l ls where lines: "?lines = l # ls"
    using split_not_Nil [of "CHR 0x0A" content] by (cases ?lines) auto
  have "content = join [CHR 0x0A] (l # ls)"
    using join_split [of "CHR 0x0A" content] lines by simp
  then have "content = l @ (if ls = [] then [] else CHR 0x0A # join [CHR 0x0A] ls)"
    by (simp add: join_Cons)
  then show ?thesis
    using parseMarkdownFile_read [OF assms(1)] parseContent_header [OF assms(2)] lines
    by simp
qed

theorem header_title_and_body_witness:
  "\<exists>f. parseMarkdownFile (example_world [''a.md''] [(''./markdown/a.md'', ''# Hello '' @ [CHR 0x0A] @ ''text'')])
           ''./markdown/a.md''
         = (example_world [''a.md''] [(''./markdown/a.md'', ''# Hello '' @ [CHR 0x0A] @ ''text'')], Inr f)
       \<and> title f = ''Hello'' \<and> body f = ''text''"
proof -
  let ?c = "''# Hello '' @ [CHR 0x0A] @ ''text''"
  let ?w = "example_world [''a.md''] [(''./markdown/a.md'', ?c)]"
  have f: "files ?w ''./markdown/a.md'' = Some ?c"
    by (simp add: example_world_def)
  have l: "split CHR 0x0A ?c = [''# Hello '', ''text'']"
    by simp
  have h: "startsWith (hd (split CHR 0x0A ?c)) ''# ''"
    unfolding l by (simp add: startsWith_def)
  have t: "trim (slice_from 2 (hd (split CHR 0x0A ?c))) = ''Hello''"
    unfolding l by (simp add: trim_def slice_from_def is_space_def)
  show ?thesis
    using header_title_and_body [OF f h] unfolding t unfolding l by auto
qed

theorem header_title_counterexample:
  "startsWith (hd (split CHR 0x0A ''# '')) ''# ''
   \<and> trim (slice_from 2 (hd (split CHR 0x0A ''# ''))) = []
   \<and> snd (parseMarkdownFile (example_world [''a.md''] [(''./markdown/a.md'', ''# '')]) ''./markdown/a.md'')
       = Inr \<lparr>title = ''a'', body = [], tags = [], htmlContent = ''<p># </p>''\<rparr>"
  by (simp add: startsWith_def trim_def slice_from_def is_space_def parseMarkdownFile_def
      readFile_def example_world_def parseContent_def basename_def last_component_def endsWith_def
      parseTags_def array_from_set_def is_word_def)

text \<open>
  C6: when the first line does not start with \<open># \<close>, the parse succeeds and the
  title is the file's base name, the entry name without its \<open>.md\<close>; the empty
  text is such a document, and its parse is the fact with that title, an empty
  body and no tags.
\<close>

theorem title_falls_back_to_file_name:
  assumes "files w (path_join dir file) = Some content"
    and "extname file = ''.md''"
    and "CHR ''/'' \<notin> set file"
    and "\<not> startsWith (hd (split CHR 0x0A content)) ''# ''"
  shows "\<exists>f. parseMarkdownFile w (path_join dir file) = (w, Inr f)
           \<and> title f = basename (path_join dir file) ''.md''
           \<and> title f @ ''.md'' = file
           \<and> (content = [] \<longrightarrow> body f = [] \<and> tags f = [])"
proof -
  have e: "parseTags [] (split CHR 0x0A []) = []"
    by (simp add: parseTags_def array_from_set_def startsWith_def)
  show ?thesis
    using parseMarkdownFile_read [OF assms(1)] parseContent_no_header [OF assms(4)]
      basename_md [OF assms(2,3), of dir] e
    by auto
qed

theorem title_falls_back_to_file_name_witness:
  "\<exists>f. parseMarkdownFile (example_world [''note.md''] [(''./markdown/note.md'', [])]) ''./markdown/note.md''
         = (example_world [''note.md''] [(''./markdown/note.md'', [])], Inr f)
       \<and> title f = ''note'' \<and> body f = [] \<and> tags f = []"
proof -
  let ?w = "example_world [''note.md''] [(''./markdown/note.md'', [])]"
  have p: "path_join ''./markdown'' ''note.md'' = ''./markdown/note.md''"
    by (simp add: path_join_def)
  have f: "files ?w (path_join ''./markdown'' ''note.md'') = Some []"
    by (simp add: example_world_def p)
  have x: "extname ''note.md'' = ''.md''"
    by (simp add: extname_def last_component_def)
  have s: "CHR ''/'' \<notin> set ''note.md''"
    by simp
  have h: "\<not> startsWith (hd (split CHR 0x0A [])) ''# ''"
    by (simp add: startsWith_def)
  show ?thesis
    using title_falls_back_to_file_name [OF f x s h] unfolding p by auto
qed

section \<open>The rules collection\<close>

text \<open>
  C1: the rules collection of a run has no two rules with the same
  serialization. For two facts of the run and a tag they share, the collection
  holds one tag-match rule of that tag for the two when their titles and bodies
  are equal, and two when the titles or the bodies differ.
\<close>

theorem rules_deduplicated_by_whole_object:
  assumes "listing w dir = Some entries"
    and "factsLoop w dir entries [] = (w', Inr facts)"
  shows "\<exists>objs. rulesCollection w dir = (w, Inr objs)
           \<and> distinct (map JSON_stringify objs)
           \<and> (\<forall>f \<in> set facts. \<forall>g \<in> set facts. \<forall>tag \<in> set (tags f) \<inter> set (tags g).
                 length (filter (\<lambda>r. r = tagMatchRule tag f \<or> r = tagMatchRule tag g) objs)
                   = (if title f = title g \<and> body f = body g then 1 else 2))"
proof -
  let ?objs = "dedup_first (concat (map factRules facts))"
  have coll: "rulesCollection w dir = (w, Inr ?objs)"
    using assms by (rule rulesCollection_facts)
  have d: "distinct ?objs"
    by (rule dedup_first_distinct)
  have inj: "inj_on JSON_stringify (set ?objs)"
    using JSON_stringify_inject by (auto intro: inj_onI)
  have ds: "distinct (map JSON_stringify ?objs)"
    using d inj by (simp add: distinct_map)
  have cnt: "length (filter (\<lambda>r. r = tagMatchRule tag f \<or> r = tagMatchRule tag g) ?objs)
               = (if title f = title g \<and> body f = body g then 1 else 2)"
    if "f \<in> set facts" "g \<in> set facts" "tag \<in> set (tags f) \<inter> set (tags g)" for f g tag
  proof -
    have "tagMatchRule tag f \<in> set ?objs" "tagMatchRule tag g \<in> set ?objs"
      using that tagMatchRule_in_factRules by (auto simp: dedup_first_set)
    then show ?thesis
      using length_filter_two [OF d, of "tagMatchRule tag f" "tagMatchRule tag g"]
      by (simp add: tagMatchRule_eq)
  qed
  show ?thesis
    using coll ds cnt by blast
qed


theorem rules_deduplicated_by_whole_object_witness:
  "\<exists>objs. rulesCollection
            (example_world [''a.md'', ''b.md'', ''c.md'']
               [(''./markdown/a.md'', ''# T'' @ [CHR 0x0A] @ ''#x''),
                (''./markdown/b.md'', ''# T'' @ [CHR 0x0A] @ ''#x''),
                (''./markdown/c.md'', ''#x'')]) markdownDir
          = (example_world [''a.md'', ''b.md'', ''c.md'']
               [(''./markdown/a.md'', ''# T'' @ [CHR 0x0A] @ ''#x''),
                (''./markdown/b.md'', ''# T'' @ [CHR 0x0A] @ ''#x''),
                (''./markdown/c.md'', ''#x'')], Inr objs)
       \<and> distinct (map JSON_stringify objs)
       \<and> length (filter (\<lambda>r. r = tagMatchRule ''x'' \<lparr>title = ''T'', body = ''#x'', tags = [''x''],
                                                     htmlContent = ''<p># T'' @ [CHR 0x0A] @ ''#x</p>''\<rparr>) objs) = 1
       \<and> length (filter (\<lambda>r. r = tagMatchRule ''x'' \<lparr>title = ''T'', body = ''#x'', tags = [''x''],
                                                     htmlContent = ''<p># T'' @ [CHR 0x0A] @ ''#x</p>''\<rparr>
                               \<or> r = tagMatchRule ''x'' \<lparr>title = ''c'', body = ''#x'', tags = [''x''],
                                                     htmlContent = ''<p>#x</p>''\<rparr>) objs) = 2"
proof -
  let ?w = "example_world [''a.md'', ''b.md'', ''c.md'']
               [(''./markdown/a.md'', ''# T'' @ [CHR 0x0A] @ ''#x''),
                (''./markdown/b.md'', ''# T'' @ [CHR 0x0A] @ ''#x''),
                (''./markdown/c.md'', ''#x'')]"
  let ?a = "\<lparr>title = ''T'', body = ''#x'', tags = [''x''],
             htmlContent = ''<p># T'' @ [CHR 0x0A] @ ''#x</p>''\<rparr>"
  let ?c = "\<lparr>title = ''c'', body = ''#x'', tags = [''x''], htmlContent = ''<p>#x</p>''\<rparr>"
  have l: "listing ?w markdownDir = Some [''a.md'', ''b.md'', ''c.md'']"
    by (simp add: example_world_def)
  have f: "factsLoop ?w markdownDir [''a.md'', ''b.md'', ''c.md''] [] = (?w, Inr [?a, ?a, ?c])"
    by (simp add: eval_defs)
  obtain objs where o: "rulesCollection ?w markdownDir = (?w, Inr objs)"
      "distinct (map JSON_stringify objs)"
      "\<forall>f \<in> set [?a, ?a, ?c]. \<forall>g \<in> set [?a, ?a, ?c]. \<forall>tag \<in> set (tags f) \<inter> set (tags g).
          length (filter (\<lambda>r. r = tagMatchRule tag f \<or> r = tagMatchRule tag g) objs)
            = (if title f = title g \<and> body f = body g then 1 else 2)"
    using rules_deduplicated_by_whole_object [OF l f] by blast
  have "length (filter (\<lambda>r. r = tagMatchRule ''x'' ?a \<or> r = tagMatchRule ''x'' ?a) objs) = 1"
    using o(3) by simp
  moreover have "length (filter (\<lambda>r. r = tagMatchRule ''x'' ?a \<or> r = tagMatchRule ''x'' ?c) objs) = 2"
    using o(3) by simp
  ultimately show ?thesis
    using o(1,2) by auto
qed

text \<open>
  C5, as amended: the rules collection of a run holds one body-match rule per
  pair of title and body: for two facts of the run with the same body, one
  body-match rule for the two when their titles are equal, and two when their
  titles differ.
\<close>

theorem body_rule_per_title_and_body:
  assumes "listing w dir = Some entries"
    and "factsLoop w dir entries [] = (w', Inr facts)"
  shows "\<exists>objs. rulesCollection w dir = (w, Inr objs)
           \<and> (\<forall>f \<in> set facts. \<forall>g \<in> set facts.
                 body f = body g \<longrightarrow>
                 length (filter (\<lambda>r. r = bodyMatchRule f \<or> r = bodyMatchRule g) objs)
                   = (if title f = title g then 1 else 2))"
proof -
  let ?objs = "dedup_first (concat (map factRules facts))"
  have coll: "rulesCollection w dir = (w, Inr ?objs)"
    using assms by (rule rulesCollection_facts)
  have d: "distinct ?objs"
    by (rule dedup_first_distinct)
  have cnt: "length (filter (\<lambda>r. r = bodyMatchRule f \<or> r = bodyMatchRule g) ?objs)
               = (if title f = title g then 1 else 2)"
    if "f \<in> set facts" "g \<in> set facts" "body f = body g" for f g
  proof -
    have "bodyMatchRule f \<in> set ?objs" "bodyMatchRule g \<in> set ?objs"
      using that bodyMatchRule_in_factRules by (auto simp: dedup_first_set)
    then show ?thesis
      using length_filter_two [OF d, of "bodyMatchRule f" "bodyMatchRule g"] that(3)
      by (simp add: bodyMatchRule_eq)
  qed
  show ?thesis
    using coll cnt by blast
qed

theorem body_rule_per_title_and_body_witness:
  "\<exists>objs. rulesCollection
            (example_world [''a.md'', ''b.md'', ''c.md'']
               [(''./markdown/a.md'', ''# T'' @ [CHR 0x0A] @ ''x''),
                (''./markdown/b.md'', ''# T'' @ [CHR 0x0A] @ ''x''),
                (''./markdown/c.md'', ''x'')]) markdownDir
          = (example_world [''a.md'', ''b.md'', ''c.md'']
               [(''./markdown/a.md'', ''# T'' @ [CHR 0x0A] @ ''x''),
                (''./markdown/b.md'', ''# T'' @ [CHR 0x0A] @ ''x''),
                (''./markdown/c.md'', ''x'')], Inr objs)
       \<and> length (filter (\<lambda>r. r = bodyMatchRule \<lparr>title = ''T'', body = ''x'', tags = [],
                                                  htmlContent = ''<p># T'' @ [CHR 0x0A] @ ''x</p>''\<rparr>) objs) = 1
       \<and> length (filter (\<lambda>r. r = bodyMatchRule \<lparr>title = ''T'', body = ''x'', tags = [],
                                                  htmlContent = ''<p># T'' @ [CHR 0x0A] @ ''x</p>''\<rparr>
                               \<or> r = bodyMatchRule \<lparr>title = ''c'', body = ''x'', tags = [],
                                                  htmlContent = ''<p>x</p>''\<rparr>) objs) = 2"
proof -
  let ?w = "example_world [''a.md'', ''b.md'', ''c.md'']
               [(''./markdown/a.md'', ''# T'' @ [CHR 0x0A] @ ''x''),
                (''./markdown/b.md'', ''# T'' @ [CHR 0x0A] @ ''x''),
                (''./markdown/c.md'', ''x'')]"
  let ?a = "\<lparr>title = ''T'', body = ''x'', tags = [],
             htmlContent = ''<p># T'' @ [CHR 0x0A] @ ''x</p>''\<rparr>"
  let ?c = "\<lparr>title = ''c'', body = ''x'', tags = [], htmlContent = ''<p>x</p>''\<rparr>"
  have l: "listing ?w markdownDir = Some [''a.md'', ''b.md'', ''c.md'']"
    by (simp add: example_world_def)
  have f: "factsLoop ?w markdownDir [''a.md'', ''b.md'', ''c.md''] [] = (?w, Inr [?a, ?a, ?c])"
    by (simp add: eval_defs)
  obtain objs where o: "rulesCollection ?w markdownDir = (?w, Inr objs)"
      "\<forall>f \<in> set [?a, ?a, ?c]. \<forall>g \<in> set [?a, ?a, ?c]. body f = body g \<longrightarrow>
          length (filter (\<lambda>r. r = bodyMatchRule f \<or> r = bodyMatchRule g) objs)
            = (if title f = title g then 1 else 2)"
    using body_rule_per_title_and_body [OF l f] by blast
  have "length (filter (\<lambda>r. r = bodyMatchRule ?a \<or> r = bodyMatchRule ?a) objs) = 1"
    using o(2) by simp
  moreover have "length (filter (\<lambda>r. r = bodyMatchRule ?a \<or> r = bodyMatchRule ?c) objs) = 2"
    using o(2) by simp
  ultimately show ?thesis
    using o(1) by auto
qed

theorem one_body_rule_per_body_counterexample:
  "snd (rulesCollection
          (example_world [''a.md'', ''b.md''] [(''./markdown/a.md'', ''x''), (''./markdown/b.md'', ''x'')])
          markdownDir)
     = Inr [bodyMatchRule \<lparr>title = ''a'', body = ''x'', tags = [], htmlContent = ''<p>x</p>''\<rparr>,
            bodyMatchRule \<lparr>title = ''b'', body = ''x'', tags = [], htmlContent = ''<p>x</p>''\<rparr>]
   \<and> bodyMatchRule \<lparr>title = ''a'', body = ''x'', tags = [], htmlContent = ''<p>x</p>''\<rparr>
       \<noteq> bodyMatchRule \<lparr>title = ''b'', body = ''x'', tags = [], htmlContent = ''<p>x</p>''\<rparr>"
proof -
  let ?w = "example_world [''a.md'', ''b.md''] [(''./markdown/a.md'', ''x''), (''./markdown/b.md'', ''x'')]"
  let ?a = "\<lparr>title = ''a'', body = ''x'', tags = [], htmlContent = ''<p>x</p>''\<rparr>"
  let ?b = "\<lparr>title = ''b'', body = ''x'', tags = [], htmlContent = ''<p>x</p>''\<rparr>"
  have l: "listing ?w markdownDir = Some [''a.md'', ''b.md'']"
    by (simp add: example_world_def)
  have f: "factsLoop ?w markdownDir [''a.md'', ''b.md''] [] = (?w, Inr [?a, ?b])"
    by (simp add: eval_defs)
  have ne: "bodyMatchRule ?a \<noteq> bodyMatchRule ?b"
    by (simp add: bodyMatchRule_eq)
  have "rulesCollection ?w markdownDir = (?w, Inr [bodyMatchRule ?a, bodyMatchRule ?b])"
    using rulesCollection_facts [OF l f] ne by (simp add: factRules_def)
  then show ?thesis
    using ne by simp
qed

text \<open>
  C9: the document \<open>- - x\<close> has the empty string as its first tag, and the rules
  collection of a directory holding it has the tag-match rule of the empty
  tag.
\<close>

theorem empty_string_tag:
  "snd (parseMarkdownFile (example_world [''n.md''] [(''./markdown/n.md'', ''- - x'')]) ''./markdown/n.md'')
     = Inr \<lparr>title = ''n'', body = ''- - x'', tags = ['''', ''x''], htmlContent = ''<p>- - x</p>''\<rparr>
   \<and> snd (rulesCollection (example_world [''n.md''] [(''./markdown/n.md'', ''- - x'')]) markdownDir)
     = Inr [tagMatchRule '''' \<lparr>title = ''n'', body = ''- - x'', tags = ['''', ''x''],
                               htmlContent = ''<p>- - x</p>''\<rparr>,
            tagMatchRule ''x'' \<lparr>title = ''n'', body = ''- - x'', tags = ['''', ''x''],
                               htmlContent = ''<p>- - x</p>''\<rparr>,
            bodyMatchRule \<lparr>title = ''n'', body = ''- - x'', tags = ['''', ''x''],
                           htmlContent = ''<p>- - x</p>''\<rparr>]"
proof -
  let ?w = "example_world [''n.md''] [(''./markdown/n.md'', ''- - x'')]"
  let ?f = "\<lparr>title = ''n'', body = ''- - x'', tags = ['''', ''x''], htmlContent = ''<p>- - x</p>''\<rparr>"
  have p: "parseMarkdownFile ?w ''./markdown/n.md'' = (?w, Inr ?f)"
    by (simp add: eval_defs)
  have l: "listing ?w markdownDir = Some [''n.md'']"
    by (simp add: example_world_def)
  have f: "factsLoop ?w markdownDir [''n.md''] [] = (?w, Inr [?f])"
    by (simp add: eval_defs)
  have "rulesCollection ?w markdownDir
          = (?w, Inr [tagMatchRule '''' ?f, tagMatchRule ''x'' ?f, bodyMatchRule ?f])"
    using rulesCollection_facts [OF l f]
    by (simp add: factRules_def tagMatchRule_eq tagMatchRule_def bodyMatchRule_def)
  then show ?thesis
    using p by simp
qed

section \<open>Runs of the script\<close>

text \<open>
  C7: a second run of the script on the outcome of the first leaves both output
  files as the first run left them.
\<close>

theorem second_run_writes_the_same_files:
  "files (main (main w)) factsOutputFile = files (main w) factsOutputFile
   \<and> files (main (main w)) rulesOutputFile = files (main w) rulesOutputFile"
proof -
  have s: "same_input markdownDir w (main w)"
    by (rule same_input_main)
  have wr: "writable (main w) = writable w"
    using s by (simp add: same_input_def)
  have ft: "factsText (main w) markdownDir = factsText w markdownDir"
    using factsText_same [OF s] by simp
  have rt: "rulesText (main w) markdownDir = rulesText w markdownDir"
    using rulesText_same [OF s] by simp
  have "files (main (main w)) factsOutputFile = files (main w) factsOutputFile"
    unfolding main_files_facts [of "main w"] ft wr
    by (simp add: main_files_facts [of w] split: option.splits)
  moreover have "files (main (main w)) rulesOutputFile = files (main w) rulesOutputFile"
    unfolding main_files_rules [of "main w"] rt wr
    by (simp add: main_files_rules [of w] split: option.splits)
  ultimately show ?thesis ..
qed

theorem second_run_writes_the_same_files_witness:
  "files (main (main (example_world [''a.md''] [(''./markdown/a.md'', ''x'')]))) factsOutputFile
     = files (main (example_world [''a.md''] [(''./markdown/a.md'', ''x'')])) factsOutputFile
   \<and> files (main (main (example_world [''a.md''] [(''./markdown/a.md'', ''x'')]))) rulesOutputFile
     = files (main (example_world [''a.md''] [(''./markdown/a.md'', ''x'')])) rulesOutputFile
   \<and> files (main (example_world [''a.md''] [(''./markdown/a.md'', ''x'')])) factsOutputFile
     = Some (JSON_stringify_2 (JArray [fact_json \<lparr>title = ''a'', body = ''x'', tags = [],
                                                  htmlContent = ''<p>x</p>''\<rparr>]))
   \<and> files (main (example_world [''a.md''] [(''./markdown/a.md'', ''x'')])) rulesOutputFile
     = Some (JSON_stringify_2 (JArray [bodyMatchRule \<lparr>title = ''a'', body = ''x'', tags = [],
                                                      htmlContent = ''<p>x</p>''\<rparr>]))"
proof -
  let ?w = "example_world [''a.md''] [(''./markdown/a.md'', ''x'')]"
  let ?a = "\<lparr>title = ''a'', body = ''x'', tags = [], htmlContent = ''<p>x</p>''\<rparr>"
  have l: "listing ?w markdownDir = Some [''a.md'']"
    by (simp add: example_world_def)
  have f: "factsLoop ?w markdownDir [''a.md''] [] = (?w, Inr [?a])"
    by (simp add: eval_defs)
  have wr: "writable ?w p" for p
    by (simp add: example_world_def)
  have ft: "factsText ?w markdownDir = Some (JSON_stringify_2 (JArray [fact_json ?a]))"
    using l f by (simp add: factsText_def readdir_def)
  have "rulesCollection ?w markdownDir = (?w, Inr [bodyMatchRule ?a])"
    using rulesCollection_facts [OF l f] by (simp add: factRules_def)
  then have rt: "rulesText ?w markdownDir = Some (JSON_stringify_2 (JArray [bodyMatchRule ?a]))"
    by (simp add: rulesText_def)
  show ?thesis
    using second_run_writes_the_same_files [of ?w]
    by (simp add: main_files_facts [of ?w] main_files_rules [of ?w] ft rt wr)
qed

text \<open>
  C8: a pass in which the listing or a read fails leaves every file as it was,
  and a pass in which they succeed writes the whole text or, when the write is
  refused, nothing. The script runs the rules pass after the facts pass
  whatever the facts pass did, and the rules file it leaves is the one the
  rules pass alone would leave.
\<close>

theorem passes_write_all_or_nothing:
  "(\<forall>err. readdir w dir = Inl err \<longrightarrow>
       files (fst (generateFactsJSON w dir out)) = files w
       \<and> files (fst (generateRulesJSON w dir out)) = files w)
   \<and> (\<forall>entries w1 err. readdir w dir = Inr entries \<and> factsLoop w dir entries [] = (w1, Inl err) \<longrightarrow>
       files (fst (generateFactsJSON w dir out)) = files w)
   \<and> (\<forall>entries w1 err. readdir w dir = Inr entries \<and> rulesLoop w dir entries [] = (w1, Inl err) \<longrightarrow>
       files (fst (generateRulesJSON w dir out)) = files w)
   \<and> (\<forall>entries w1 facts. readdir w dir = Inr entries \<and> factsLoop w dir entries [] = (w1, Inr facts) \<longrightarrow>
       files (fst (generateFactsJSON w dir out))
         = (if writable w out
            then (files w)(out \<mapsto> JSON_stringify_2 (JArray (map fact_json facts)))
            else files w))
   \<and> (\<forall>w1 err. rulesCollection w dir = (w1, Inl err) \<longrightarrow>
       files (fst (generateRulesJSON w dir out)) = files w)
   \<and> (\<forall>w1 objs. rulesCollection w dir = (w1, Inr objs) \<longrightarrow>
       files (fst (generateRulesJSON w dir out))
         = (if writable w out then (files w)(out \<mapsto> JSON_stringify_2 (JArray objs)) else files w))
   \<and> main w = fst (generateRulesJSON (fst (generateFactsJSON w markdownDir factsOutputFile))
                      markdownDir rulesOutputFile)
   \<and> files (main w) rulesOutputFile
       = files (fst (generateRulesJSON w markdownDir rulesOutputFile)) rulesOutputFile"
proof -
  have a: "files (fst (generateFactsJSON w dir out)) = files w
           \<and> files (fst (generateRulesJSON w dir out)) = files w"
    if "readdir w dir = Inl err" for err
    using that
    by (simp add: generateFactsJSON_files generateRulesJSON_files factsText_def rulesText_def
        rulesCollection_snd)
  have b: "files (fst (generateFactsJSON w dir out)) = files w"
    if "readdir w dir = Inr entries" "factsLoop w dir entries [] = (w1, Inl err)" for entries w1 err
    using that by (simp add: generateFactsJSON_files factsText_def)
  have c: "files (fst (generateRulesJSON w dir out)) = files w"
    if "readdir w dir = Inr entries" "rulesLoop w dir entries [] = (w1, Inl err)" for entries w1 err
    using that by (simp add: generateRulesJSON_files rulesText_def rulesCollection_snd)
  have d: "files (fst (generateFactsJSON w dir out))
         = (if writable w out
            then (files w)(out \<mapsto> JSON_stringify_2 (JArray (map fact_json facts)))
            else files w)"
    if "readdir w dir = Inr entries" "factsLoop w dir entries [] = (w1, Inr facts)" for entries w1 facts
    using that by (simp add: generateFactsJSON_files factsText_def)
  have e: "files (fst (generateRulesJSON w dir out))
         = (if writable w out then (files w)(out \<mapsto> JSON_stringify_2 (JArray objs)) else files w)"
    if "rulesCollection w dir = (w1, Inr objs)" for w1 objs
    using that by (simp add: generateRulesJSON_files rulesText_def)
  have e': "files (fst (generateRulesJSON w dir out)) = files w"
    if "rulesCollection w dir = (w1, Inl err)" for w1 err
    using that by (simp add: generateRulesJSON_files rulesText_def)
  have f: "files (main w) rulesOutputFile
       = files (fst (generateRulesJSON w markdownDir rulesOutputFile)) rulesOutputFile"
    by (simp only: main_files_rules rules_pass_alone)
  show ?thesis
    using a b c d e e' f main_passes [of w] by blast
qed

theorem passes_write_all_or_nothing_witness:
  "readdir (example_world [''a.md''] []) ''nowhere'' = Inl (ReaddirError ''nowhere'')
   \<and> files (fst (generateFactsJSON (example_world [''a.md''] []) ''nowhere'' factsOutputFile))
       = files (example_world [''a.md''] [])
   \<and> files (fst (generateRulesJSON (example_world [''a.md''] []) ''nowhere'' rulesOutputFile))
       = files (example_world [''a.md''] [])
   \<and> readdir (example_world [''a.md''] []) markdownDir = Inr [''a.md'']
   \<and> snd (factsLoop (example_world [''a.md''] []) markdownDir [''a.md''] [])
       = Inl (ReadError ''./markdown/a.md'')
   \<and> files (fst (generateFactsJSON (example_world [''a.md''] []) markdownDir factsOutputFile))
       = files (example_world [''a.md''] [])
   \<and> files (fst (generateRulesJSON (example_world [''a.md''] []) markdownDir rulesOutputFile))
       = files (example_world [''a.md''] [])
   \<and> files (fst (generateFactsJSON (example_world [''a.md''] [(''./markdown/a.md'', ''x'')])
                     markdownDir factsOutputFile))
       = (files (example_world [''a.md''] [(''./markdown/a.md'', ''x'')]))
           (factsOutputFile \<mapsto> JSON_stringify_2 (JArray [fact_json
              \<lparr>title = ''a'', body = ''x'', tags = [], htmlContent = ''<p>x</p>''\<rparr>]))
   \<and> files (fst (generateRulesJSON (example_world [''a.md''] [(''./markdown/a.md'', ''x'')])
                     markdownDir rulesOutputFile))
       = (files (example_world [''a.md''] [(''./markdown/a.md'', ''x'')]))
           (rulesOutputFile \<mapsto> JSON_stringify_2 (JArray [bodyMatchRule
              \<lparr>title = ''a'', body = ''x'', tags = [], htmlContent = ''<p>x</p>''\<rparr>]))"
proof -
  let ?u = "example_world [''a.md''] []"
  let ?w = "example_world [''a.md''] [(''./markdown/a.md'', ''x'')]"
  let ?a = "\<lparr>title = ''a'', body = ''x'', tags = [], htmlContent = ''<p>x</p>''\<rparr>"
  let ?e = "console_error ?u (''Error reading file '' @ ''./markdown/a.md'' @ '':'')
              (ReadError ''./markdown/a.md'')"
  have r0: "readdir ?u ''nowhere'' = Inl (ReaddirError ''nowhere'')"
    by (simp add: eval_defs)
  have r1: "readdir ?u markdownDir = Inr [''a.md'']"
    by (simp add: readdir_def example_world_def)
  have l0: "factsLoop ?u markdownDir [''a.md''] [] = (?e, Inl (ReadError ''./markdown/a.md''))"
    by (simp add: eval_defs)
  have k0: "rulesLoop ?u markdownDir [''a.md''] [] = (?e, Inl (ReadError ''./markdown/a.md''))"
    using rulesLoop_facts [of ?u markdownDir "[''a.md'']" "[]"] l0 by simp
  have r: "readdir ?w markdownDir = Inr [''a.md'']"
    by (simp add: readdir_def example_world_def)
  have l: "listing ?w markdownDir = Some [''a.md'']"
    by (simp add: example_world_def)
  have f: "factsLoop ?w markdownDir [''a.md''] [] = (?w, Inr [?a])"
    by (simp add: eval_defs)
  have c: "rulesCollection ?w markdownDir = (?w, Inr [bodyMatchRule ?a])"
    using rulesCollection_facts [OF l f] by (simp add: factRules_def)
  have wr: "writable ?w p" for p
    by (simp add: example_world_def)
  note t0 = passes_write_all_or_nothing [of ?u "''nowhere''"]
  note t1 = passes_write_all_or_nothing [of ?u markdownDir]
  note t2 = passes_write_all_or_nothing [of ?w markdownDir]
  have "files (fst (generateFactsJSON ?u ''nowhere'' factsOutputFile)) = files ?u"
    using t0 [of factsOutputFile] r0 by blast
  moreover have "files (fst (generateRulesJSON ?u ''nowhere'' rulesOutputFile)) = files ?u"
    using t0 [of rulesOutputFile] r0 by blast
  moreover have "files (fst (generateFactsJSON ?u markdownDir factsOutputFile)) = files ?u"
    using t1 [of factsOutputFile] r1 l0 by blast
  moreover have "files (fst (generateRulesJSON ?u markdownDir rulesOutputFile)) = files ?u"
    using t1 [of rulesOutputFile] r1 k0 by blast
  moreover have "files (fst (generateFactsJSON ?w markdownDir factsOutputFile))
       = (files ?w)(factsOutputFile \<mapsto> JSON_stringify_2 (JArray [fact_json ?a]))"
    using t2 [of factsOutputFile] r f wr by simp
  moreover have "files (fst (generateRulesJSON ?w markdownDir rulesOutputFile))
       = (files ?w)(rulesOutputFile \<mapsto> JSON_stringify_2 (JArray [bodyMatchRule ?a]))"
    using t2 [of rulesOutputFile] c wr by simp
  ultimately show ?thesis
    using r0 r1 l0 by simp
qed

section \<open>Unfinished documents\<close>

text \<open>
  C3: a document that parses to a fact with the tag UNFINISHED adds nothing to
  the facts and nothing to the rules: both loops end as they end on the
  listing without its entry, and both passes leave the files they leave when
  the directory is listed without it.
\<close>

theorem unfinished_document_contributes_nothing:
  assumes "parseMarkdownFile w (path_join dir file) = (w', Inr f)"
    and "''UNFINISHED'' \<in> set (tags f)"
  shows "factsLoop w dir (before @ file # after) facts = factsLoop w dir (before @ after) facts
       \<and> rulesLoop w dir (before @ file # after) rules = rulesLoop w dir (before @ after) rules
       \<and> (listing w dir = Some (before @ file # after) \<longrightarrow>
            files (fst (generateFactsJSON w dir out))
              = files (fst (generateFactsJSON (w\<lparr>listing := (listing w)(dir \<mapsto> before @ after)\<rparr>) dir out))
            \<and> files (fst (generateRulesJSON w dir out))
              = files (fst (generateRulesJSON (w\<lparr>listing := (listing w)(dir \<mapsto> before @ after)\<rparr>) dir out)))"
proof -
  have fl: "factsLoop w dir (before @ file # after) acc = factsLoop w dir (before @ after) acc" for acc
  proof (cases "factsLoop w dir before acc")
    case (Pair w1 r)
    show ?thesis
    proof (cases r)
      case (Inl err)
      then show ?thesis using Pair by (simp add: factsLoop_append)
    next
      case (Inr fs)
      then have "w1 = w" using Pair factsLoop_Inr by blast
      then show ?thesis
        using Pair Inr rulesLoop_skip_unfinished(1) [OF assms]
        by (simp add: factsLoop_append del: factsLoop.simps)
    qed
  qed
  have rl: "rulesLoop w dir (before @ file # after) rs = rulesLoop w dir (before @ after) rs" for rs
  proof (cases "rulesLoop w dir before rs")
    case (Pair w1 r)
    show ?thesis
    proof (cases r)
      case (Inl err)
      then show ?thesis using Pair by (simp add: rulesLoop_append)
    next
      case (Inr fs)
      then have "w1 = w" using Pair rulesLoop_Inr by blast
      then show ?thesis
        using Pair Inr rulesLoop_skip_unfinished(2) [OF assms]
        by (simp add: rulesLoop_append del: rulesLoop.simps)
    qed
  qed
  let ?w2 = "w\<lparr>listing := (listing w)(dir \<mapsto> before @ after)\<rparr>"
  have sd: "same_documents dir w ?w2"
    by (simp add: same_documents_def)
  have pass: "files (fst (generateFactsJSON w dir out)) = files (fst (generateFactsJSON ?w2 dir out))
            \<and> files (fst (generateRulesJSON w dir out)) = files (fst (generateRulesJSON ?w2 dir out))"
    if l: "listing w dir = Some (before @ file # after)"
  proof -
    have r1: "readdir w dir = Inr (before @ file # after)"
      using l by (simp add: readdir_def)
    have r2: "readdir ?w2 dir = Inr (before @ after)"
      by (simp add: readdir_def)
    have "snd (factsLoop w dir (before @ file # after) []) = snd (factsLoop ?w2 dir (before @ after) [])"
      using fl [of "[]"] factsLoop_same [OF sd, of "before @ after" "[]"] by simp
    then have ft: "factsText w dir = factsText ?w2 dir"
      using r1 r2 by (simp add: factsText_def)
    have "snd (rulesLoop w dir (before @ file # after) []) = snd (rulesLoop ?w2 dir (before @ after) [])"
      using rl [of "[]"] rulesLoop_same [OF sd, of "before @ after" "[]"] by simp
    then have rt: "rulesText w dir = rulesText ?w2 dir"
      using r1 r2 by (simp add: rulesText_def rulesCollection_snd)
    show ?thesis
      by (simp add: generateFactsJSON_files generateRulesJSON_files ft rt split: option.splits)
  qed
  show ?thesis
    using fl [of facts] rl [of rules] pass by blast
qed

theorem unfinished_document_contributes_nothing_witness:
  "snd (parseMarkdownFile
          (example_world [''a.md'', ''wip.md'', ''b.md'']
             [(''./markdown/a.md'', ''x''), (''./markdown/wip.md'', ''#UNFINISHED''),
              (''./markdown/b.md'', ''y'')])
          (path_join markdownDir ''wip.md''))
     = Inr \<lparr>title = ''wip'', body = ''#UNFINISHED'', tags = [''UNFINISHED''],
             htmlContent = ''<p>#UNFINISHED</p>''\<rparr>
   \<and> snd (factsLoop
            (example_world [''a.md'', ''wip.md'', ''b.md'']
               [(''./markdown/a.md'', ''x''), (''./markdown/wip.md'', ''#UNFINISHED''),
                (''./markdown/b.md'', ''y'')])
            markdownDir [''a.md'', ''wip.md'', ''b.md''] [])
     = Inr [\<lparr>title = ''a'', body = ''x'', tags = [], htmlContent = ''<p>x</p>''\<rparr>,
            \<lparr>title = ''b'', body = ''y'', tags = [], htmlContent = ''<p>y</p>''\<rparr>]
   \<and> snd (rulesLoop
            (example_world [''a.md'', ''wip.md'', ''b.md'']
               [(''./markdown/a.md'', ''x''), (''./markdown/wip.md'', ''#UNFINISHED''),
                (''./markdown/b.md'', ''y'')])
            markdownDir [''a.md'', ''wip.md'', ''b.md''] [])
     = Inr [JSON_stringify (bodyMatchRule \<lparr>title = ''a'', body = ''x'', tags = [], htmlContent = ''<p>x</p>''\<rparr>),
            JSON_stringify (bodyMatchRule \<lparr>title = ''b'', body = ''y'', tags = [], htmlContent = ''<p>y</p>''\<rparr>)]
   \<and> files (fst (generateFactsJSON
            (example_world [''a.md'', ''wip.md'', ''b.md'']
               [(''./markdown/a.md'', ''x''), (''./markdown/wip.md'', ''#UNFINISHED''),
                (''./markdown/b.md'', ''y'')])
            markdownDir factsOutputFile))
     = files (fst (generateFactsJSON
            (example_world [''a.md'', ''b.md'']
               [(''./markdown/a.md'', ''x''), (''./markdown/wip.md'', ''#UNFINISHED''),
                (''./markdown/b.md'', ''y'')])
            markdownDir factsOutputFile))
   \<and> files (fst (generateRulesJSON
            (example_world [''a.md'', ''wip.md'', ''b.md'']
               [(''./markdown/a.md'', ''x''), (''./markdown/wip.md'', ''#UNFINISHED''),
                (''./markdown/b.md'', ''y'')])
            markdownDir rulesOutputFile))
     = files (fst (generateRulesJSON
            (example_world [''a.md'', ''b.md'']
               [(''./markdown/a.md'', ''x''), (''./markdown/wip.md'', ''#UNFINISHED''),
                (''./markdown/b.md'', ''y'')])
            markdownDir rulesOutputFile))"
proof -
  let ?w = "example_world [''a.md'', ''wip.md'', ''b.md'']
             [(''./markdown/a.md'', ''x''), (''./markdown/wip.md'', ''#UNFINISHED''),
              (''./markdown/b.md'', ''y'')]"
  let ?u = "\<lparr>title = ''wip'', body = ''#UNFINISHED'', tags = [''UNFINISHED''],
             htmlContent = ''<p>#UNFINISHED</p>''\<rparr>"
  let ?a = "\<lparr>title = ''a'', body = ''x'', tags = [], htmlContent = ''<p>x</p>''\<rparr>"
  let ?b = "\<lparr>title = ''b'', body = ''y'', tags = [], htmlContent = ''<p>y</p>''\<rparr>"
  have p: "parseMarkdownFile ?w (path_join markdownDir ''wip.md'') = (?w, Inr ?u)"
    by (simp add: eval_defs)
  have t: "''UNFINISHED'' \<in> set (tags ?u)"
    by simp
  have f: "factsLoop ?w markdownDir ([''a.md''] @ [''b.md'']) [] = (?w, Inr [?a, ?b])"
    by (simp add: eval_defs)
  have ne: "JSON_stringify (bodyMatchRule ?a) \<noteq> JSON_stringify (bodyMatchRule ?b)"
    using JSON_stringify_inject [of "bodyMatchRule ?a" "bodyMatchRule ?b"]
    by (auto simp: bodyMatchRule_eq)
  have r: "rulesLoop ?w markdownDir ([''a.md''] @ [''b.md'']) []
             = (?w, Inr [JSON_stringify (bodyMatchRule ?a), JSON_stringify (bodyMatchRule ?b)])"
    using rulesLoop_facts [of ?w markdownDir "[''a.md''] @ [''b.md'']" "[]"] f ne
    by (simp add: addFactRules_def set_add_def)
  have l: "listing ?w markdownDir = Some ([''a.md''] @ ''wip.md'' # [''b.md''])"
    by (simp add: example_world_def)
  have w2: "?w\<lparr>listing := (listing ?w)(markdownDir \<mapsto> [''a.md''] @ [''b.md''])\<rparr>
              = example_world [''a.md'', ''b.md'']
                  [(''./markdown/a.md'', ''x''), (''./markdown/wip.md'', ''#UNFINISHED''),
                   (''./markdown/b.md'', ''y'')]"
    by (auto simp: example_world_def)
  note th = unfinished_document_contributes_nothing [OF p t, of "[''a.md'']" "[''b.md'']"]
  have "snd (factsLoop ?w markdownDir [''a.md'', ''wip.md'', ''b.md''] []) = Inr [?a, ?b]"
    using th [of "[]" "[]" factsOutputFile] f by simp
  moreover have "snd (rulesLoop ?w markdownDir [''a.md'', ''wip.md'', ''b.md''] [])
      = Inr [JSON_stringify (bodyMatchRule ?a), JSON_stringify (bodyMatchRule ?b)]"
    using th [of "[]" "[]" factsOutputFile] r by simp
  moreover have "files (fst (generateFactsJSON ?w markdownDir factsOutputFile))
      = files (fst (generateFactsJSON
          (?w\<lparr>listing := (listing ?w)(markdownDir \<mapsto> [''a.md''] @ [''b.md''])\<rparr>)
          markdownDir factsOutputFile))"
    using th [of "[]" "[]" factsOutputFile] l by blast
  moreover have "files (fst (generateRulesJSON ?w markdownDir rulesOutputFile))
      = files (fst (generateRulesJSON
          (?w\<lparr>listing := (listing ?w)(markdownDir \<mapsto> [''a.md''] @ [''b.md''])\<rparr>)
          markdownDir rulesOutputFile))"
    using th [of "[]" "[]" rulesOutputFile] l by blast
  ultimately show ?thesis
    using p unfolding w2 by simp
qed

section \<open>Errors\<close>

text \<open>
  C10: neither function throws to its caller: each returns normally whatever
  happens inside, and when its \<open>try\<close> block fails the error is printed on the
  console and nothing else is done.
\<close>

theorem generate_functions_never_throw:
  "snd (generateFactsJSON w dir out) = Inr ()
   \<and> snd (generateRulesJSON w dir out) = Inr ()
   \<and> (\<forall>w' err. generateFactsJSON_try w dir out = (w', Inl err)
         \<longrightarrow> generateFactsJSON w dir out = (console_error w' ''Error generating facts JSON:'' err, Inr ()))
   \<and> (\<forall>w' err. generateRulesJSON_try w dir out = (w', Inl err)
         \<longrightarrow> generateRulesJSON w dir out = (console_error w' ''Error generating rules JSON:'' err, Inr ()))"
  by (auto simp: generateFactsJSON_def generateRulesJSON_def split: prod.splits sum.splits)

theorem generate_functions_never_throw_witness:
  "generateFactsJSON_try (example_world [] []) ''nowhere'' ''out.json''
     = (example_world [] [], Inl (ReaddirError ''nowhere''))
   \<and> generateFactsJSON (example_world [] []) ''nowhere'' ''out.json''
     = (console_error (example_world [] []) ''Error generating facts JSON:'' (ReaddirError ''nowhere''), Inr ())
   \<and> generateRulesJSON_try (example_world [] []) ''nowhere'' ''out.json''
     = (example_world [] [], Inl (ReaddirError ''nowhere''))
   \<and> generateRulesJSON (example_world [] []) ''nowhere'' ''out.json''
     = (console_error (example_world [] []) ''Error generating rules JSON:'' (ReaddirError ''nowhere''), Inr ())"
proof -
  have l: "listing (example_world [] []) ''nowhere'' = None"
    by (simp add: example_world_def markdownDir_def)
  have a: "generateFactsJSON_try (example_world [] []) ''nowhere'' ''out.json''
     = (example_world [] [], Inl (ReaddirError ''nowhere''))"
    by (simp add: generateFactsJSON_try_def readdir_def l)
  have b: "generateRulesJSON_try (example_world [] []) ''nowhere'' ''out.json''
     = (example_world [] [], Inl (ReaddirError ''nowhere''))"
    by (simp add: generateRulesJSON_try_def rulesCollection_def readdir_def l)
  show ?thesis
    using generate_functions_never_throw [of "example_world [] []" "''nowhere''" "''out.json''"] a b
    by simp
qed

end
